theory Spec2Isabelle
  imports Complex_Main "HOL-Library.Log_Nat"
begin

section \<open>Values of the host language\<close>

text \<open>
  A JavaScript \<open>Date\<close> holds a time value: a whole number of milliseconds, or NaN for an
  Invalid Date. The model keeps exactly that. Local time is taken in a zone with a fixed
  offset and no daylight saving, so the time value counts local milliseconds since local
  midnight of 1 January 1970 (a Thursday), and the upper and lower ends of the \<open>Date\<close>
  range are not modelled.
\<close>

datatype date = Date int | InvalidDate

text \<open>
  A JavaScript \<open>number\<close>, as \<open>addBusinessHours\<close> takes its amount. The amount and the
  minutes derived from it are exact rationals: the rounding of IEEE doubles is not
  modelled there. The hours that \<open>businessHoursInInterval\<close> computes are doubles, and
  are rounded as such in its section.
\<close>

datatype jsnum = Num rat | NaN | PosInfinity | NegInfinity

text \<open>
  An optional property of an options object: \<open>Undefined\<close> when it is absent (or null,
  which \<open>??\<close> treats alike), \<open>Value v\<close> when it has the declared TypeScript type, and
  \<open>WrongType\<close> for a value of any other type, which only an untyped caller can pass.
\<close>

datatype 'a field = Undefined | Value 'a | WrongType

text \<open>The errors the three entry points throw: the JavaScript class and which message.\<close>

datatype reason =
    TimeNotString
  | InvalidTimeFormat
  | InvalidTimeValue
  | EndNotAfterStart
  | WorkingDaysNotNonEmptyArray
  | WorkingDaysNotWeekdays
  | HolidaysNotArray
  | StartDateInvalid
  | EndDateInvalid
  | StartAfterEnd
  | NoWorkingTimeInRange
  | MaxIterationsExceeded

datatype error = TypeError reason | RangeError reason

section \<open>Calendar primitives imported from the rest of the library\<close>

abbreviation msInMinute :: int where "msInMinute \<equiv> 60000"
abbreviation msInHour :: int where "msInHour \<equiv> 3600000"
abbreviation msInDay :: int where "msInDay \<equiv> 86400000"

text \<open>
  Modelled from the spec: \<open>Date.prototype.getDay\<close>, \<open>getHours\<close> and \<open>getMinutes\<close>, the
  derived weekday (0 = Sunday) and time of day of an instant. Day 0 of the time scale is a
  Thursday.
\<close>

definition getDay :: "int \<Rightarrow> int" where
  "getDay t = (4 + t div msInDay) mod 7"

definition getHours :: "int \<Rightarrow> int" where
  "getHours t = (t mod msInDay) div msInHour"

definition getMinutes :: "int \<Rightarrow> int" where
  "getMinutes t = (t mod msInHour) div msInMinute"

text \<open>
  Modelled from the spec: \<open>startOfDay\<close>, clamping an instant to the start of its
  calendar day.
\<close>

definition startOfDay :: "int \<Rightarrow> int" where
  "startOfDay t = (t div msInDay) * msInDay"

text \<open>
  Modelled from the spec: \<open>Date.prototype.setHours(h, m, 0, 0)\<close>, the instant of the same
  calendar day at \<open>h:m:00.000\<close>.
\<close>

definition setHours :: "int \<Rightarrow> int \<Rightarrow> int \<Rightarrow> int" where
  "setHours t h m = startOfDay t + h * msInHour + m * msInMinute"

text \<open>Modelled from the spec: \<open>addDays\<close>, generic calendar-day arithmetic.\<close>

definition addDays :: "int \<Rightarrow> int \<Rightarrow> int" where
  "addDays t n = t + n * msInDay"

text \<open>
  Modelled from the spec: \<open>addMinutes\<close>, which sets the time value to the old one plus
  \<open>amount * 60000\<close>. A time value is a whole number: \<open>Date\<close> drops the fraction of the
  sum, rounding toward zero.
\<close>

definition truncateToZero :: "rat \<Rightarrow> int" where
  "truncateToZero x = (if 0 \<le> x then \<lfloor>x\<rfloor> else \<lceil>x\<rceil>)"

definition addMinutes :: "int \<Rightarrow> rat \<Rightarrow> int" where
  "addMinutes t amount = truncateToZero (of_int t + amount * of_int msInMinute)"

text \<open>
  Modelled from the spec: \<open>isBefore\<close> and \<open>isAfter\<close>, generic instant comparison. The
  library's \<open>min\<close> and \<open>max\<close> of two valid instants are \<^const>\<open>min\<close> and \<^const>\<open>max\<close>
  on time values.
\<close>

definition isBefore :: "int \<Rightarrow> int \<Rightarrow> bool" where
  "isBefore a b = (a < b)"

definition isAfter :: "int \<Rightarrow> int \<Rightarrow> bool" where
  "isAfter a b = (a > b)"

text \<open>
  Modelled from the spec: \<open>isSameDay\<close>, calendar-day equality. Two instants are on the
  same calendar day when year, month and day agree, which is when their days' starts
  agree; an Invalid Date is on no calendar day.
\<close>

fun isSameDay :: "date \<Rightarrow> date \<Rightarrow> bool" where
  "isSameDay (Date a) (Date b) = (startOfDay a = startOfDay b)"
| "isSameDay _ _ = False"

section \<open>The shared calendar engine\<close>

text \<open>
  The helpers of the engine are called on valid dates only: each entry point returns or
  throws on an Invalid Date before it calls one. They are modelled on the time value. A
  holiday entry is any date, valid or not, already converted by \<open>toDate\<close>; the opaque
  construction context \<open>in\<close> of the options is passed through by the code and left
  out here.
\<close>

subsection \<open>Options\<close>

record BusinessHoursOptions =
  opt_startOfDay :: "string field"
  opt_endOfDay :: "string field"
  opt_workingDays :: "jsnum list field"
  opt_holidays :: "date list field"

record NormalizedBusinessHoursOptions =
  startHour :: int
  startMinute :: int
  endHour :: int
  endMinute :: int
  workingDays :: "jsnum list"
  holidays :: "date list"

text \<open>The options object a caller leaves out: every property is absent.\<close>

definition noOptions :: BusinessHoursOptions where
  "noOptions = \<lparr>opt_startOfDay = Undefined, opt_endOfDay = Undefined,
     opt_workingDays = Undefined, opt_holidays = Undefined\<rparr>"

subsection \<open>Parsing a time string\<close>

text \<open>\<open>String.prototype.split(":")\<close>: the pieces between the separators, in order.\<close>

fun split :: "char \<Rightarrow> string \<Rightarrow> string list" where
  "split c [] = [[]]"
| "split c (x # xs) =
     (if x = c then [] # split c xs
      else (case split c xs of
              [] \<Rightarrow> [[x]]
            | p # ps \<Rightarrow> (x # p) # ps))"

text \<open>
  \<open>parseInt(s, 10)\<close>: skip leading white space, read an optional sign, then the longest
  run of decimal digits; NaN (here \<open>None\<close>) when that run is empty. Whatever follows the
  digits is ignored.
\<close>

definition isWhiteSpace :: "char \<Rightarrow> bool" where
  "isWhiteSpace c = (c \<in> set [CHR 0x09, CHR 0x0A, CHR 0x0B, CHR 0x0C, CHR 0x0D, CHR 0x20, CHR 0xA0])"

definition isDigit :: "char \<Rightarrow> bool" where
  "isDigit c = (48 \<le> (of_char c :: nat) \<and> (of_char c :: nat) \<le> 57)"

definition digitValue :: "char \<Rightarrow> int" where
  "digitValue c = int (of_char c) - 48"

definition digitsValue :: "string \<Rightarrow> int" where
  "digitsValue ds = foldl (\<lambda>acc c. 10 * acc + digitValue c) 0 ds"

definition parseInt :: "string \<Rightarrow> int option" where
  "parseInt s =
     (let t = dropWhile isWhiteSpace s;
          (sign, u) = (case t of
                         c # r \<Rightarrow> if c = CHR ''-'' then (-1, r)
                                  else if c = CHR ''+'' then (1, r)
                                  else (1, t)
                       | [] \<Rightarrow> (1, t));
          ds = takeWhile isDigit u
      in if ds = [] then None else Some (sign * digitsValue ds))"

definition parseTimeString :: "string field \<Rightarrow> error + (int \<times> int)" where
  "parseTimeString time =
     (case time of
        Value s \<Rightarrow>
          (let parts = split CHR '':'' s in
           if length parts \<noteq> 2 then Inl (RangeError InvalidTimeFormat)
           else (case (parseInt (parts ! 0), parseInt (parts ! 1)) of
                   (Some hours, Some minutes) \<Rightarrow>
                     if hours < 0 \<or> hours > 23 \<or> minutes < 0 \<or> minutes > 59
                     then Inl (RangeError InvalidTimeValue)
                     else Inr (hours, minutes)
                 | _ \<Rightarrow> Inl (RangeError InvalidTimeValue)))
      | _ \<Rightarrow> Inl (TypeError TimeNotString))"

subsection \<open>Predicates\<close>

definition isHoliday :: "int \<Rightarrow> date list \<Rightarrow> bool" where
  "isHoliday t hs = list_ex (\<lambda>holiday. isSameDay (Date t) holiday) hs"

definition isWorkingDay :: "int \<Rightarrow> jsnum list \<Rightarrow> bool" where
  "isWorkingDay t wds = (let dayOfWeek = getDay t in Num (of_int dayOfWeek) \<in> set wds)"

subsection \<open>Normalization\<close>

definition isInteger :: "jsnum \<Rightarrow> bool" where
  "isInteger x = (case x of Num r \<Rightarrow> r = of_int \<lfloor>r\<rfloor> | _ \<Rightarrow> False)"

definition invalidWorkingDay :: "jsnum \<Rightarrow> bool" where
  "invalidWorkingDay day =
     (case day of
        Num r \<Rightarrow> \<not> isInteger day \<or> r < 0 \<or> r > 6
      | _ \<Rightarrow> True)"

definition normalizeBusinessHoursOptions ::
  "BusinessHoursOptions \<Rightarrow> error + NormalizedBusinessHoursOptions" where
  "normalizeBusinessHoursOptions options =
     (let startOfDay = (case opt_startOfDay options of Undefined \<Rightarrow> Value ''09:00'' | v \<Rightarrow> v);
          endOfDay = (case opt_endOfDay options of Undefined \<Rightarrow> Value ''17:00'' | v \<Rightarrow> v);
          workingDays = (case opt_workingDays options of
                           Undefined \<Rightarrow> Value [Num 1, Num 2, Num 3, Num 4, Num 5] | v \<Rightarrow> v);
          holidays = (case opt_holidays options of Undefined \<Rightarrow> Value [] | v \<Rightarrow> v)
      in case parseTimeString startOfDay of
           Inl e \<Rightarrow> Inl e
         | Inr (sh, sm) \<Rightarrow>
        (case parseTimeString endOfDay of
           Inl e \<Rightarrow> Inl e
         | Inr (eh, em) \<Rightarrow>
        if eh < sh \<or> (eh = sh \<and> em \<le> sm) then Inl (RangeError EndNotAfterStart)
        else (case workingDays of
                Value wds \<Rightarrow>
                  if wds = [] then Inl (RangeError WorkingDaysNotNonEmptyArray)
                  else if list_ex invalidWorkingDay wds
                  then Inl (RangeError WorkingDaysNotWeekdays)
                  else (case holidays of
                          Value hs \<Rightarrow>
                            Inr \<lparr>startHour = sh, startMinute = sm, endHour = eh,
                                 endMinute = em, workingDays = wds, holidays = hs\<rparr>
                        | _ \<Rightarrow> Inl (TypeError HolidaysNotArray))
              | _ \<Rightarrow> Inl (RangeError WorkingDaysNotNonEmptyArray))))"

subsection \<open>The working window of a day\<close>

definition getWorkingHoursStart :: "int \<Rightarrow> NormalizedBusinessHoursOptions \<Rightarrow> int option" where
  "getWorkingHoursStart t normalized =
     (if \<not> isWorkingDay t (workingDays normalized) \<or> isHoliday t (holidays normalized)
      then None
      else Some (setHours t (startHour normalized) (startMinute normalized)))"

definition getWorkingHoursEnd :: "int \<Rightarrow> NormalizedBusinessHoursOptions \<Rightarrow> int option" where
  "getWorkingHoursEnd t normalized =
     (if \<not> isWorkingDay t (workingDays normalized) \<or> isHoliday t (holidays normalized)
      then None
      else Some (setHours t (endHour normalized) (endMinute normalized)))"

section \<open>isWithinBusinessHours\<close>

definition isWithinBusinessHours :: "date \<Rightarrow> BusinessHoursOptions \<Rightarrow> error + bool" where
  "isWithinBusinessHours date options =
     (case date of
        InvalidDate \<Rightarrow> Inr False
      | Date t \<Rightarrow>
        (case normalizeBusinessHoursOptions options of
           Inl e \<Rightarrow> Inl e
         | Inr normalized \<Rightarrow>
           if \<not> isWorkingDay t (workingDays normalized) then Inr False
           else if isHoliday t (holidays normalized) then Inr False
           else (let hours = getHours t;
                     minutes = getMinutes t;
                     currentMinutes = hours * 60 + minutes;
                     startMinutes = startHour normalized * 60 + startMinute normalized;
                     endMinutes = endHour normalized * 60 + endMinute normalized
                 in Inr (currentMinutes \<ge> startMinutes \<and> currentMinutes < endMinutes))))"

section \<open>businessHoursInInterval\<close>

subsection \<open>Hours are IEEE doubles\<close>

text \<open>
  The code computes the hours in IEEE binary64 arithmetic. A finite double is modelled
  as the rational number it stands for, and \<open>toDouble\<close> rounds a rational to the
  nearest double, a tie to the one with an even significand: a number \<open>x\<close> with
  \<open>2\<^sup>e \<le> \<bar>x\<bar> < 2\<^sup>e\<^sup>+\<^sup>1\<close> is rounded to a multiple of \<open>2\<^sup>e\<^sup>-\<^sup>5\<^sup>2\<close>. The range of the exponent is
  not modelled: for instants in the range of \<open>Date\<close> the quotients and totals below lie
  between \<open>2\<^sup>-\<^sup>2\<^sup>2\<close> and \<open>2\<^sup>3\<^sup>3\<close>. Time values and the difference of two of them
  inside a day are whole numbers below \<open>2\<^sup>5\<^sup>3\<close>, which doubles hold exactly.
\<close>

definition roundHalfEven :: "rat \<Rightarrow> int" where
  "roundHalfEven q =
     (let f = \<lfloor>q\<rfloor>; r = q - of_int f
      in if r < 1 / 2 then f
         else if 1 / 2 < r then f + 1
         else if even f then f else f + 1)"

definition exponentOf :: "rat \<Rightarrow> int" where
  "exponentOf x = (if 1 \<le> x then bitlen \<lfloor>x\<rfloor> - 1 else - bitlen (\<lceil>1 / x\<rceil> - 1))"

definition toDouble :: "rat \<Rightarrow> rat" where
  "toDouble x =
     (if x = 0 then 0
      else (let ulp = 2 powi (exponentOf \<bar>x\<bar> - 52)
            in sgn x * of_int (roundHalfEven (\<bar>x\<bar> / ulp)) * ulp))"

subsection \<open>The loop over the days\<close>

text \<open>
  One pass of the loop over the days: the hours that the pass adds to the running total,
  or \<open>None\<close> when it adds nothing, because the day has no working window or the window
  does not meet the interval.
\<close>

definition overlapHours ::
  "int \<Rightarrow> int \<Rightarrow> NormalizedBusinessHoursOptions \<Rightarrow> int \<Rightarrow> rat option" where
  "overlapHours start end normalized currentDay =
     (case (getWorkingHoursStart currentDay normalized,
            getWorkingHoursEnd currentDay normalized) of
        (Some workStart, Some workEnd) \<Rightarrow>
          (let overlapStart = max start workStart;
               overlapEnd = min end workEnd
           in if isBefore overlapStart overlapEnd \<or> overlapStart = overlapEnd
              then (let milliseconds = overlapEnd - overlapStart;
                        hours = toDouble (of_int milliseconds / of_int (1000 * 60 * 60))
                    in Some hours)
              else None)
      | _ \<Rightarrow> None)"

function daysLoop ::
  "int \<Rightarrow> int \<Rightarrow> NormalizedBusinessHoursOptions \<Rightarrow> int \<Rightarrow> rat \<Rightarrow> int \<Rightarrow> rat" where
  "daysLoop start end normalized endDay totalHours currentDay =
     (if isBefore currentDay (addDays endDay 1)
      then daysLoop start end normalized endDay
             (case overlapHours start end normalized currentDay of
                Some hours \<Rightarrow> toDouble (totalHours + hours)
              | None \<Rightarrow> totalHours)
             (addDays currentDay 1)
      else totalHours)"
  by pat_completeness auto
termination
  by (relation "measure (\<lambda>(start, end, normalized, endDay, totalHours, currentDay).
        nat (endDay + msInDay - currentDay))")
     (auto simp: isBefore_def addDays_def)

declare daysLoop.simps [simp del]

definition businessHoursInInterval ::
  "date \<Rightarrow> date \<Rightarrow> BusinessHoursOptions \<Rightarrow> error + rat" where
  "businessHoursInInterval intervalStart intervalEnd options =
     (case intervalStart of
        InvalidDate \<Rightarrow> Inl (RangeError StartDateInvalid)
      | Date start \<Rightarrow>
     (case intervalEnd of
        InvalidDate \<Rightarrow> Inl (RangeError EndDateInvalid)
      | Date end \<Rightarrow>
        if isAfter start end then Inl (RangeError StartAfterEnd)
        else (case normalizeBusinessHoursOptions options of
                Inl e \<Rightarrow> Inl e
              | Inr normalized \<Rightarrow>
                  Inr (daysLoop start end normalized (startOfDay end) 0 (startOfDay start)))))"

section \<open>addBusinessHours\<close>

abbreviation maxAttempts :: nat where "maxAttempts \<equiv> 366"
abbreviation maxIterations :: nat where "maxIterations \<equiv> 10000"

text \<open>
  The loop of \<open>moveToWorkingTime\<close>, from a given count of attempts: it returns the count
  and the instant it stands on when it leaves the loop, by a \<open>break\<close> or because the
  count has reached the maximum.
\<close>

function moveLoop ::
  "NormalizedBusinessHoursOptions \<Rightarrow> int \<Rightarrow> nat \<Rightarrow> int \<Rightarrow> nat \<times> int" where
  "moveLoop normalized dir attempts result =
     (if attempts < maxAttempts then
        (let attempts' = attempts + 1 in
         if \<not> isWorkingDay result (workingDays normalized)
            \<or> isHoliday result (holidays normalized)
         then moveLoop normalized dir attempts'
                (setHours (addDays result dir)
                   (if dir > 0 then startHour normalized else endHour normalized)
                   (if dir > 0 then startMinute normalized else endMinute normalized))
         else
           (case (getWorkingHoursStart result normalized,
                  getWorkingHoursEnd result normalized) of
              (Some workStart, Some workEnd) \<Rightarrow>
                if dir > 0 then
                  (if isBefore result workStart then (attempts', workStart)
                   else if isAfter result workEnd \<or> result = workEnd
                   then moveLoop normalized dir attempts'
                          (setHours (addDays result 1)
                             (startHour normalized) (startMinute normalized))
                   else (attempts', result))
                else
                  (if isAfter result workEnd \<or> result = workEnd then (attempts', workEnd)
                   else if isBefore result workStart
                   then moveLoop normalized dir attempts'
                          (setHours (addDays result (-1))
                             (endHour normalized) (endMinute normalized))
                   else (attempts', result))
            | _ \<Rightarrow>
                moveLoop normalized dir attempts'
                  (setHours (addDays result dir)
                     (if dir > 0 then startHour normalized else endHour normalized)
                     (if dir > 0 then startMinute normalized else endMinute normalized))))
      else (attempts, result))"
  by pat_completeness auto
termination
  by (relation "measure (\<lambda>(normalized, dir, attempts, result). maxAttempts - attempts)") auto

declare moveLoop.simps [simp del]

definition moveToWorkingTime ::
  "NormalizedBusinessHoursOptions \<Rightarrow> int \<Rightarrow> int \<Rightarrow> error + int" where
  "moveToWorkingTime normalized date dir =
     (case moveLoop normalized dir 0 date of
        (attempts, result) \<Rightarrow>
          if attempts \<ge> maxAttempts then Inl (RangeError NoWorkingTimeInRange)
          else Inr result)"

text \<open>
  The loop that consumes the minutes, from a given count of iterations: it returns the
  count and the instant when the loop ends, or the error that \<open>moveToWorkingTime\<close>
  throws inside it. Setting \<open>remainingMinutes\<close> to 0 ends the loop at its next test, so
  that branch returns at once.
\<close>

function addLoop ::
  "NormalizedBusinessHoursOptions \<Rightarrow> int \<Rightarrow> rat \<Rightarrow> nat \<Rightarrow> int \<Rightarrow> error + (nat \<times> int)" where
  "addLoop normalized direction remainingMinutes iterations currentDate =
     (if remainingMinutes > 0 \<and> iterations < maxIterations then
        (let iterations' = iterations + 1 in
         case (getWorkingHoursStart currentDate normalized,
               getWorkingHoursEnd currentDate normalized) of
           (Some workStart, Some workEnd) \<Rightarrow>
             (let availableMinutes =
                    (if direction > 0
                     then of_int (workEnd - currentDate) / of_int (1000 * 60)
                     else of_int (currentDate - workStart) / of_int (1000 * 60))
              in if availableMinutes \<ge> remainingMinutes
                 then Inr (iterations',
                           addMinutes currentDate (remainingMinutes * of_int direction))
                 else
                   (case (if direction > 0
                          then moveToWorkingTime normalized
                                 (setHours (addDays currentDate 1)
                                    (startHour normalized) (startMinute normalized))
                                 direction
                          else moveToWorkingTime normalized
                                 (setHours (addDays currentDate (-1))
                                    (endHour normalized) (endMinute normalized))
                                 direction) of
                      Inl e \<Rightarrow> Inl e
                    | Inr currentDate' \<Rightarrow>
                        addLoop normalized direction (remainingMinutes - availableMinutes)
                          iterations' currentDate'))
         | _ \<Rightarrow>
             (case moveToWorkingTime normalized (addDays currentDate direction) direction of
                Inl e \<Rightarrow> Inl e
              | Inr currentDate' \<Rightarrow>
                  addLoop normalized direction remainingMinutes iterations' currentDate'))
      else Inr (iterations, currentDate))"
  by pat_completeness auto
termination
  by (relation "measure (\<lambda>(normalized, direction, remainingMinutes, iterations, currentDate).
        maxIterations - iterations)") auto

declare addLoop.simps [simp del]

definition isFinite :: "jsnum \<Rightarrow> bool" where
  "isFinite x = (case x of Num r \<Rightarrow> True | _ \<Rightarrow> False)"

definition isNaN :: "jsnum \<Rightarrow> bool" where
  "isNaN x = (x = NaN)"

definition addBusinessHours ::
  "date \<Rightarrow> jsnum \<Rightarrow> BusinessHoursOptions \<Rightarrow> error + date" where
  "addBusinessHours date amount options =
     (case date of
        InvalidDate \<Rightarrow> Inr InvalidDate
      | Date t \<Rightarrow>
          if isNaN amount \<or> \<not> isFinite amount then Inr InvalidDate
          else if amount = Num 0 then Inr (Date t)
          else
            (case normalizeBusinessHoursOptions options of
               Inl e \<Rightarrow> Inl e
             | Inr normalized \<Rightarrow>
                 (let signedMinutes = (case amount of Num r \<Rightarrow> r * 60 | _ \<Rightarrow> 0);
                      direction = (if signedMinutes \<ge> 0 then 1 else -1);
                      remainingMinutes = \<bar>signedMinutes\<bar>
                  in case moveToWorkingTime normalized t direction of
                       Inl e \<Rightarrow> Inl e
                     | Inr currentDate \<Rightarrow>
                         (case addLoop normalized direction remainingMinutes 0 currentDate of
                            Inl e \<Rightarrow> Inl e
                          | Inr (iterations, currentDate') \<Rightarrow>
                              if iterations \<ge> maxIterations
                              then Inl (RangeError MaxIterationsExceeded)
                              else Inr (Date currentDate')))))"

section \<open>Notions of the specification\<close>

text \<open>
  The minute-of-day of an instant, as the specification's data model derives it from the
  instant: the whole minutes since the start of its calendar day.
\<close>

definition minuteOfDay :: "int \<Rightarrow> int" where
  "minuteOfDay t = (t mod msInDay) div msInMinute"

text \<open>
  The hours of overlap in exact arithmetic, in the words of the specification: for each
  calendar day from the day of \<open>start\<close> through the day of \<open>end\<close>, the duration of the
  overlap of the interval with the day's working window, in fractional hours at full
  precision; their sum is the total.
\<close>

definition exactOverlapHours ::
  "int \<Rightarrow> int \<Rightarrow> NormalizedBusinessHoursOptions \<Rightarrow> int \<Rightarrow> rat" where
  "exactOverlapHours start end normalized currentDay =
     (case (getWorkingHoursStart currentDay normalized,
            getWorkingHoursEnd currentDay normalized) of
        (Some workStart, Some workEnd) \<Rightarrow>
          (if max start workStart \<le> min end workEnd
           then of_int (min end workEnd - max start workStart) / 3600000
           else 0)
      | _ \<Rightarrow> 0)"

definition exactBusinessHours ::
  "int \<Rightarrow> int \<Rightarrow> NormalizedBusinessHoursOptions \<Rightarrow> rat" where
  "exactBusinessHours start end normalized =
     (\<Sum>d = start div msInDay..end div msInDay.
        exactOverlapHours start end normalized (d * msInDay))"

text \<open>
  The running total after the pass of the day loop for the day number \<open>d\<close>, the days
  counted from 1 January 1970.
\<close>

definition addDayHours ::
  "int \<Rightarrow> int \<Rightarrow> NormalizedBusinessHoursOptions \<Rightarrow> rat \<Rightarrow> int \<Rightarrow> rat" where
  "addDayHours start end normalized totalHours d =
     (case overlapHours start end normalized (d * msInDay) of
        Some hours \<Rightarrow> toDouble (totalHours + hours)
      | None \<Rightarrow> totalHours)"

text \<open>
  The unit roundoff of binary64, the largest relative error of one rounding, and a double
  \<open>x\<close> that is within \<open>n\<close> roundings of an exact value.
\<close>

definition unitRoundoff :: rat where
  "unitRoundoff = 1 / 2 ^ 53"

definition withinRoundings :: "nat \<Rightarrow> rat \<Rightarrow> rat \<Rightarrow> bool" where
  "withinRoundings n exact x =
     (exact * (1 - unitRoundoff) ^ n \<le> x \<and> x \<le> exact * (1 + unitRoundoff) ^ n)"

text \<open>
  The specification's well-formed time string: exactly two colon-separated numeric
  fields, a numeric field being a non-empty run of decimal digits.
\<close>

definition numericField :: "string \<Rightarrow> bool" where
  "numericField f = (f \<noteq> [] \<and> list_all isDigit f)"

definition twoNumericFields :: "string \<Rightarrow> bool" where
  "twoNumericFields s =
     (case split CHR '':'' s of
        [h, m] \<Rightarrow> numericField h \<and> numericField m
      | _ \<Rightarrow> False)"

text \<open>The configuration that the default options normalize to.\<close>

abbreviation defaultCalendar :: NormalizedBusinessHoursOptions where
  "defaultCalendar \<equiv> \<lparr>startHour = 9, startMinute = 0, endHour = 17, endMinute = 0,
     workingDays = [Num 1, Num 2, Num 3, Num 4, Num 5], holidays = []\<rparr>"

text \<open>A calendar with the default hours on all seven days of the week, without holidays.\<close>

abbreviation everyDayCalendar :: NormalizedBusinessHoursOptions where
  "everyDayCalendar \<equiv> \<lparr>startHour = 9, startMinute = 0, endHour = 17, endMinute = 0,
     workingDays = [Num 0, Num 1, Num 2, Num 3, Num 4, Num 5, Num 6], holidays = []\<rparr>"

text \<open>
  A day without a working window, in the words of the specification: a day that is not a
  working day, or is a holiday.
\<close>

definition nonWorking :: "NormalizedBusinessHoursOptions \<Rightarrow> int \<Rightarrow> bool" where
  "nonWorking normalized t =
     (\<not> isWorkingDay t (workingDays normalized) \<or> isHoliday t (holidays normalized))"

section \<open>addBusinessHours on a store of Date objects\<close>

text \<open>
  A \<open>Date\<close> is an object, and \<open>setHours\<close> changes it in place. To see which objects a call
  changes, the model of \<open>addBusinessHours\<close> is repeated here over a store: a reference is
  an address, the store lists the time value of every object, and each function takes the
  store and returns the new one with its result.
\<close>

type_synonym ref = nat
type_synonym store = "date list"

text \<open>
  Modelled from the spec: constructing an instant (\<open>new Date(value)\<close>, \<open>toDate\<close>,
  \<open>constructFrom\<close>) makes a new object and leaves every other one alone.
\<close>

definition newDate :: "date \<Rightarrow> store \<Rightarrow> ref \<times> store" where
  "newDate v s = (length s, s @ [v])"

text \<open>Arithmetic on the time value of a date: NaN stays NaN.\<close>

definition onTime :: "(int \<Rightarrow> int) \<Rightarrow> date \<Rightarrow> date" where
  "onTime f d = (case d of Date t \<Rightarrow> Date (f t) | InvalidDate \<Rightarrow> InvalidDate)"

text \<open>\<open>Date.prototype.setHours(h, m, 0, 0)\<close>: the object at the reference changes.\<close>

definition setHoursAt :: "ref \<Rightarrow> int \<Rightarrow> int \<Rightarrow> store \<Rightarrow> store" where
  "setHoursAt r h m s = s[r := onTime (\<lambda>t. setHours t h m) (s ! r)]"

text \<open>
  Modelled from the spec: \<open>addDays\<close> and \<open>addMinutes\<close> produce a new value and never
  change their argument.
\<close>

definition addDaysAt :: "ref \<Rightarrow> int \<Rightarrow> store \<Rightarrow> ref \<times> store" where
  "addDaysAt r n s = newDate (onTime (\<lambda>t. addDays t n) (s ! r)) s"

definition addMinutesAt :: "ref \<Rightarrow> rat \<Rightarrow> store \<Rightarrow> ref \<times> store" where
  "addMinutesAt r amount s = newDate (onTime (\<lambda>t. addMinutes t amount) (s ! r)) s"

text \<open>
  Reading an object: the weekday of an Invalid Date is NaN, and comparisons with NaN are
  false. Modelled from the spec: the predicates and comparisons only read.
\<close>

definition isWorkingDayAt :: "store \<Rightarrow> ref \<Rightarrow> jsnum list \<Rightarrow> bool" where
  "isWorkingDayAt s r wds =
     (case s ! r of Date t \<Rightarrow> isWorkingDay t wds | InvalidDate \<Rightarrow> NaN \<in> set wds)"

definition isHolidayAt :: "store \<Rightarrow> ref \<Rightarrow> date list \<Rightarrow> bool" where
  "isHolidayAt s r hs = list_ex (\<lambda>holiday. isSameDay (s ! r) holiday) hs"

definition isBeforeAt :: "store \<Rightarrow> ref \<Rightarrow> ref \<Rightarrow> bool" where
  "isBeforeAt s a b =
     (case (s ! a, s ! b) of (Date x, Date y) \<Rightarrow> isBefore x y | _ \<Rightarrow> False)"

definition isAfterAt :: "store \<Rightarrow> ref \<Rightarrow> ref \<Rightarrow> bool" where
  "isAfterAt s a b =
     (case (s ! a, s ! b) of (Date x, Date y) \<Rightarrow> isAfter x y | _ \<Rightarrow> False)"

definition sameTimeAt :: "store \<Rightarrow> ref \<Rightarrow> ref \<Rightarrow> bool" where
  "sameTimeAt s a b =
     (case (s ! a, s ! b) of (Date x, Date y) \<Rightarrow> x = y | _ \<Rightarrow> False)"

definition getWorkingHoursStartAt ::
  "ref \<Rightarrow> NormalizedBusinessHoursOptions \<Rightarrow> store \<Rightarrow> ref option \<times> store" where
  "getWorkingHoursStartAt date normalized s =
     (if \<not> isWorkingDayAt s date (workingDays normalized)
         \<or> isHolidayAt s date (holidays normalized)
      then (None, s)
      else (let (result, s1) = newDate (s ! date) s;
                s2 = setHoursAt result (startHour normalized) (startMinute normalized) s1
            in (Some result, s2)))"

definition getWorkingHoursEndAt ::
  "ref \<Rightarrow> NormalizedBusinessHoursOptions \<Rightarrow> store \<Rightarrow> ref option \<times> store" where
  "getWorkingHoursEndAt date normalized s =
     (if \<not> isWorkingDayAt s date (workingDays normalized)
         \<or> isHolidayAt s date (holidays normalized)
      then (None, s)
      else (let (result, s1) = newDate (s ! date) s;
                s2 = setHoursAt result (endHour normalized) (endMinute normalized) s1
            in (Some result, s2)))"

function moveLoopAt ::
  "NormalizedBusinessHoursOptions \<Rightarrow> int \<Rightarrow> nat \<Rightarrow> ref \<Rightarrow> store \<Rightarrow> (nat \<times> ref) \<times> store" where
  "moveLoopAt normalized dir attempts result s =
     (if attempts < maxAttempts then
        (let attempts' = attempts + 1 in
         if \<not> isWorkingDayAt s result (workingDays normalized)
            \<or> isHolidayAt s result (holidays normalized)
         then (let (result', s1) = addDaysAt result dir s;
                   s2 = setHoursAt result'
                          (if dir > 0 then startHour normalized else endHour normalized)
                          (if dir > 0 then startMinute normalized else endMinute normalized)
                          s1
               in moveLoopAt normalized dir attempts' result' s2)
         else
           (let (workStart, s1) = getWorkingHoursStartAt result normalized s;
                (workEnd, s2) = getWorkingHoursEndAt result normalized s1
            in case (workStart, workEnd) of
                 (Some workStart, Some workEnd) \<Rightarrow>
                   if dir > 0 then
                     (if isBeforeAt s2 result workStart
                      then (let (result', s3) = newDate (s2 ! workStart) s2
                            in ((attempts', result'), s3))
                      else if isAfterAt s2 result workEnd \<or> sameTimeAt s2 result workEnd
                      then (let (result', s3) = addDaysAt result 1 s2;
                                s4 = setHoursAt result'
                                       (startHour normalized) (startMinute normalized) s3
                            in moveLoopAt normalized dir attempts' result' s4)
                      else ((attempts', result), s2))
                   else
                     (if isAfterAt s2 result workEnd \<or> sameTimeAt s2 result workEnd
                      then (let (result', s3) = newDate (s2 ! workEnd) s2
                            in ((attempts', result'), s3))
                      else if isBeforeAt s2 result workStart
                      then (let (result', s3) = addDaysAt result (- 1) s2;
                                s4 = setHoursAt result'
                                       (endHour normalized) (endMinute normalized) s3
                            in moveLoopAt normalized dir attempts' result' s4)
                      else ((attempts', result), s2))
               | _ \<Rightarrow>
                   (let (result', s3) = addDaysAt result dir s2;
                        s4 = setHoursAt result'
                               (if dir > 0 then startHour normalized else endHour normalized)
                               (if dir > 0 then startMinute normalized
                                else endMinute normalized)
                               s3
                    in moveLoopAt normalized dir attempts' result' s4)))
      else ((attempts, result), s))"
  by pat_completeness auto
termination
  by (relation "measure (\<lambda>(normalized, dir, attempts, result, s). maxAttempts - attempts)")
    auto

declare moveLoopAt.simps [simp del]

definition moveToWorkingTimeAt ::
  "NormalizedBusinessHoursOptions \<Rightarrow> ref \<Rightarrow> int \<Rightarrow> store \<Rightarrow> (error + ref) \<times> store" where
  "moveToWorkingTimeAt normalized date dir s =
     (let (result, s1) = newDate (s ! date) s;
          ((attempts, result'), s2) = moveLoopAt normalized dir 0 result s1
      in if attempts \<ge> maxAttempts then (Inl (RangeError NoWorkingTimeInRange), s2)
         else (Inr result', s2))"

text \<open>
  The loop that consumes the minutes. The minutes available are NaN when one of the dates
  is invalid; the test against them is then false, the remaining minutes become NaN as
  well, and the loop ends at its next test, after the move to the neighbouring day.
\<close>

definition minutesBetween :: "store \<Rightarrow> ref \<Rightarrow> ref \<Rightarrow> rat option" where
  "minutesBetween s a b =
     (case (s ! a, s ! b) of
        (Date x, Date y) \<Rightarrow> Some (of_int (x - y) / of_int (1000 * 60))
      | _ \<Rightarrow> None)"

function addLoopAt ::
  "NormalizedBusinessHoursOptions \<Rightarrow> int \<Rightarrow> rat \<Rightarrow> nat \<Rightarrow> ref \<Rightarrow> store
     \<Rightarrow> (error + (nat \<times> ref)) \<times> store" where
  "addLoopAt normalized direction remainingMinutes iterations currentDate s =
     (if remainingMinutes > 0 \<and> iterations < maxIterations then
        (let iterations' = iterations + 1;
             (workStart, s1) = getWorkingHoursStartAt currentDate normalized s;
             (workEnd, s2) = getWorkingHoursEndAt currentDate normalized s1
         in case (workStart, workEnd) of
              (Some workStart, Some workEnd) \<Rightarrow>
                (let availableMinutes =
                       (if direction > 0 then minutesBetween s2 workEnd currentDate
                        else minutesBetween s2 currentDate workStart)
                 in if (case availableMinutes of
                          Some available \<Rightarrow> available \<ge> remainingMinutes
                        | None \<Rightarrow> False)
                    then (let (currentDate', s3) =
                                addMinutesAt currentDate
                                  (remainingMinutes * of_int direction) s2
                          in (Inr (iterations', currentDate'), s3))
                    else
                      (let (next, s3) =
                             (if direction > 0 then addDaysAt currentDate 1 s2
                              else addDaysAt currentDate (- 1) s2);
                           s4 = (if direction > 0
                                 then setHoursAt next
                                        (startHour normalized) (startMinute normalized) s3
                                 else setHoursAt next
                                        (endHour normalized) (endMinute normalized) s3)
                       in case moveToWorkingTimeAt normalized next direction s4 of
                            (Inl e, s5) \<Rightarrow> (Inl e, s5)
                          | (Inr currentDate', s5) \<Rightarrow>
                              (case availableMinutes of
                                 Some available \<Rightarrow>
                                   addLoopAt normalized direction
                                     (remainingMinutes - available) iterations'
                                     currentDate' s5
                               | None \<Rightarrow> (Inr (iterations', currentDate'), s5))))
            | _ \<Rightarrow>
                (let (next, s3) = addDaysAt currentDate direction s2
                 in case moveToWorkingTimeAt normalized next direction s3 of
                      (Inl e, s4) \<Rightarrow> (Inl e, s4)
                    | (Inr currentDate', s4) \<Rightarrow>
                        addLoopAt normalized direction remainingMinutes iterations'
                          currentDate' s4))
      else (Inr (iterations, currentDate), s))"
  by pat_completeness auto
termination
  by (relation "measure (\<lambda>(normalized, direction, remainingMinutes, iterations,
        currentDate, s). maxIterations - iterations)") auto

declare addLoopAt.simps [simp del]

definition addBusinessHoursAt ::
  "ref \<Rightarrow> jsnum \<Rightarrow> BusinessHoursOptions \<Rightarrow> store \<Rightarrow> (error + ref) \<times> store" where
  "addBusinessHoursAt date amount options s =
     (let (date', s1) = newDate (s ! date) s in
      if s1 ! date' = InvalidDate then
        (let (r, s2) = newDate InvalidDate s1 in (Inr r, s2))
      else if isNaN amount \<or> \<not> isFinite amount then
        (let (r, s2) = newDate InvalidDate s1 in (Inr r, s2))
      else if amount = Num 0 then
        (let (r, s2) = newDate (s1 ! date') s1 in (Inr r, s2))
      else
        (case normalizeBusinessHoursOptions options of
           Inl e \<Rightarrow> (Inl e, s1)
         | Inr normalized \<Rightarrow>
             (let signedMinutes = (case amount of Num r \<Rightarrow> r * 60 | _ \<Rightarrow> 0);
                  direction = (if signedMinutes \<ge> 0 then 1 else - 1);
                  remainingMinutes = \<bar>signedMinutes\<bar>;
                  (currentDate, s2) = newDate (s1 ! date') s1
              in case moveToWorkingTimeAt normalized currentDate direction s2 of
                   (Inl e, s3) \<Rightarrow> (Inl e, s3)
                 | (Inr currentDate', s3) \<Rightarrow>
                     (case addLoopAt normalized direction remainingMinutes 0
                             currentDate' s3 of
                        (Inl e, s4) \<Rightarrow> (Inl e, s4)
                      | (Inr (iterations, currentDate''), s4) \<Rightarrow>
                          if iterations \<ge> maxIterations
                          then (Inl (RangeError MaxIterationsExceeded), s4)
                          else (let (r, s5) = newDate (s4 ! currentDate'') s4
                                in (Inr r, s5))))))"


section \<open>Facts about normalization\<close>

lemma parseTimeString_error:
  "parseTimeString x = Inl e \<Longrightarrow>
     e = TypeError TimeNotString \<or> e = RangeError InvalidTimeFormat
     \<or> e = RangeError InvalidTimeValue"
  by (auto simp: parseTimeString_def Let_def split: field.splits option.splits if_splits)

lemma parseTimeString_range:
  "parseTimeString x = Inr (h, m) \<Longrightarrow> 0 \<le> h \<and> h \<le> 23 \<and> 0 \<le> m \<and> m \<le> 59"
  by (auto simp: parseTimeString_def Let_def split: field.splits option.splits if_splits)

lemma normalize_error:
  assumes "normalizeBusinessHoursOptions options = Inl e"
  shows "e \<in> {TypeError TimeNotString, RangeError InvalidTimeFormat,
          RangeError InvalidTimeValue, RangeError EndNotAfterStart,
          RangeError WorkingDaysNotNonEmptyArray, RangeError WorkingDaysNotWeekdays,
          TypeError HolidaysNotArray}"
proof -
  let ?s = "parseTimeString
    (case opt_startOfDay options of Undefined \<Rightarrow> Value ''09:00'' | v \<Rightarrow> v)"
  let ?e = "parseTimeString
    (case opt_endOfDay options of Undefined \<Rightarrow> Value ''17:00'' | v \<Rightarrow> v)"
  show ?thesis
  proof (cases ?s)
    case (Inl a)
    with assms have "e = a" by (simp add: normalizeBusinessHoursOptions_def)
    with parseTimeString_error [OF Inl] show ?thesis by auto
  next
    case s: (Inr p)
    show ?thesis
    proof (cases ?e)
      case (Inl a)
      with s assms have "e = a"
        by (simp add: normalizeBusinessHoursOptions_def split: prod.splits)
      with parseTimeString_error [OF Inl] show ?thesis by auto
    next
      case (Inr q)
      with s assms show ?thesis
        by (simp add: normalizeBusinessHoursOptions_def
            split: prod.splits if_splits field.splits)
    qed
  qed
qed

lemma normalize_noOptions:
  "normalizeBusinessHoursOptions noOptions =
     Inr \<lparr>startHour = 9, startMinute = 0, endHour = 17, endMinute = 0,
          workingDays = [Num 1, Num 2, Num 3, Num 4, Num 5], holidays = []\<rparr>"
  by code_simp

lemma normalize_bad_start:
  "normalizeBusinessHoursOptions (noOptions\<lparr>opt_startOfDay := Value ''25:00''\<rparr>) =
     Inl (RangeError InvalidTimeValue)"
  by code_simp

section \<open>Invalid operands\<close>

text \<open>
  Claim C6. An invalid starting instant makes \<open>isWithinBusinessHours\<close> return false and
  \<open>addBusinessHours\<close> return an Invalid Date; an amount that is NaN or infinite makes
  \<open>addBusinessHours\<close> return an Invalid Date for every starting instant. Each of them
  is a returned value, not an error, whatever the options are.
\<close>

theorem invalid_input_propagates:
  "isWithinBusinessHours InvalidDate options = Inr False
   \<and> addBusinessHours InvalidDate amount options = Inr InvalidDate
   \<and> addBusinessHours date NaN options = Inr InvalidDate
   \<and> addBusinessHours date PosInfinity options = Inr InvalidDate
   \<and> addBusinessHours date NegInfinity options = Inr InvalidDate"
  by (cases date)
     (simp_all add: isWithinBusinessHours_def addBusinessHours_def isNaN_def isFinite_def)

text \<open>
  Claim C8. \<open>businessHoursInInterval\<close> throws the invalid-start error for an invalid
  start, the invalid-end error for a valid start and an invalid end, and the
  inverted-interval error for two valid instants with the start after the end; all three
  whatever the options are, so before they are normalized and before any day is visited.
  For valid instants with the start not after the end it throws none of the three, and
  with options that normalize it returns a number of hours.
\<close>

theorem interval_errors:
  "businessHoursInInterval InvalidDate intervalEnd options = Inl (RangeError StartDateInvalid)
   \<and> businessHoursInInterval (Date s) InvalidDate options = Inl (RangeError EndDateInvalid)
   \<and> (s > e \<longrightarrow>
        businessHoursInInterval (Date s) (Date e) options = Inl (RangeError StartAfterEnd))
   \<and> (s \<le> e \<longrightarrow>
        businessHoursInInterval (Date s) (Date e) options \<noteq> Inl (RangeError StartDateInvalid)
        \<and> businessHoursInInterval (Date s) (Date e) options \<noteq> Inl (RangeError EndDateInvalid)
        \<and> businessHoursInInterval (Date s) (Date e) options \<noteq> Inl (RangeError StartAfterEnd)
        \<and> (\<forall>cfg. normalizeBusinessHoursOptions options = Inr cfg \<longrightarrow>
              (\<exists>hours. businessHoursInInterval (Date s) (Date e) options = Inr hours)))"
proof -
  have "businessHoursInInterval (Date s) (Date e) options \<noteq> Inl (RangeError r)"
    if "s \<le> e" "r \<in> {StartDateInvalid, EndDateInvalid, StartAfterEnd}" for r
  proof (cases "normalizeBusinessHoursOptions options")
    case (Inl a)
    from normalize_error [OF Inl] that Inl show ?thesis
      by (auto simp: businessHoursInInterval_def isAfter_def)
  next
    case (Inr cfg)
    with that show ?thesis by (simp add: businessHoursInInterval_def isAfter_def)
  qed
  then show ?thesis
    by (auto simp: businessHoursInInterval_def isAfter_def)
qed

theorem interval_errors_witness:
  "(5::int) > 3
   \<and> businessHoursInInterval (Date 5) (Date 3) noOptions = Inl (RangeError StartAfterEnd)
   \<and> businessHoursInInterval (Date 3) (Date 5) noOptions \<noteq> Inl (RangeError StartAfterEnd)
   \<and> (\<exists>hours. businessHoursInInterval (Date 3) (Date 5) noOptions = Inr hours)"
  using interval_errors [of undefined noOptions 5 3] interval_errors [of undefined noOptions 3 5]
    normalize_noOptions
  by simp

text \<open>
  Claim C10. With options whose normalization throws a configuration error, the checks of
  the operands still come first: an invalid instant gives false, respectively an Invalid
  Date; a NaN or infinite amount gives an Invalid Date; a zero amount gives the instant
  back; an invalid or inverted interval gives its interval error. The configuration error
  is thrown only once the operands have passed these checks.
\<close>

theorem operand_checks_precede_configuration:
  assumes "normalizeBusinessHoursOptions options = Inl err"
  shows "isWithinBusinessHours InvalidDate options = Inr False
   \<and> addBusinessHours InvalidDate amount options = Inr InvalidDate
   \<and> addBusinessHours (Date t) NaN options = Inr InvalidDate
   \<and> addBusinessHours (Date t) PosInfinity options = Inr InvalidDate
   \<and> addBusinessHours (Date t) NegInfinity options = Inr InvalidDate
   \<and> addBusinessHours (Date t) (Num 0) options = Inr (Date t)
   \<and> businessHoursInInterval InvalidDate intervalEnd options = Inl (RangeError StartDateInvalid)
   \<and> businessHoursInInterval (Date s) InvalidDate options = Inl (RangeError EndDateInvalid)
   \<and> (s > e \<longrightarrow>
        businessHoursInInterval (Date s) (Date e) options = Inl (RangeError StartAfterEnd))
   \<and> isWithinBusinessHours (Date t) options = Inl err
   \<and> (a \<noteq> 0 \<longrightarrow> addBusinessHours (Date t) (Num a) options = Inl err)
   \<and> (s \<le> e \<longrightarrow> businessHoursInInterval (Date s) (Date e) options = Inl err)"
  using assms
  by (simp add: isWithinBusinessHours_def addBusinessHours_def businessHoursInInterval_def
      isNaN_def isFinite_def isAfter_def)

theorem operand_checks_precede_configuration_witness:
  "normalizeBusinessHoursOptions (noOptions\<lparr>opt_startOfDay := Value ''25:00''\<rparr>)
     = Inl (RangeError InvalidTimeValue)
   \<and> isWithinBusinessHours InvalidDate (noOptions\<lparr>opt_startOfDay := Value ''25:00''\<rparr>)
     = Inr False
   \<and> addBusinessHours InvalidDate (Num 2) (noOptions\<lparr>opt_startOfDay := Value ''25:00''\<rparr>)
     = Inr InvalidDate
   \<and> addBusinessHours (Date 7) NaN (noOptions\<lparr>opt_startOfDay := Value ''25:00''\<rparr>)
     = Inr InvalidDate
   \<and> addBusinessHours (Date 7) (Num 0) (noOptions\<lparr>opt_startOfDay := Value ''25:00''\<rparr>)
     = Inr (Date 7)
   \<and> businessHoursInInterval (Date 5) (Date 3) (noOptions\<lparr>opt_startOfDay := Value ''25:00''\<rparr>)
     = Inl (RangeError StartAfterEnd)
   \<and> isWithinBusinessHours (Date 7) (noOptions\<lparr>opt_startOfDay := Value ''25:00''\<rparr>)
     = Inl (RangeError InvalidTimeValue)"
  using operand_checks_precede_configuration
    [OF normalize_bad_start, of "Num 2" 7 undefined 5 3 1] normalize_bad_start
  by simp

section \<open>Membership in business hours\<close>

lemma minuteOfDay_eq: "getHours t * 60 + getMinutes t = minuteOfDay t"
proof -
  define r where "r = t mod msInDay"
  define q where "q = r div msInMinute"
  have a: "t mod msInHour = r mod msInHour"
    unfolding r_def by (simp add: mod_mod_cancel)
  have b: "r div msInHour = q div 60"
    using zdiv_zmult2_eq [of 60 r msInMinute] by (simp add: q_def)
  have c: "(r mod msInHour) div msInMinute = q mod 60"
    using zmod_zmult2_eq [of 60 r msInMinute] by (simp add: q_def)
  show ?thesis
    by (simp add: getHours_def getMinutes_def minuteOfDay_def a b c flip: r_def q_def)
qed

lemma startOfDay_eq_iff: "startOfDay a = startOfDay b \<longleftrightarrow> a div msInDay = b div msInDay"
  by (simp add: startOfDay_def)

lemma isHoliday_iff:
  "isHoliday t hs \<longleftrightarrow> (\<exists>h. Date h \<in> set hs \<and> h div msInDay = t div msInDay)"
proof -
  have "isSameDay (Date t) x \<longleftrightarrow> (\<exists>h. x = Date h \<and> h div msInDay = t div msInDay)" for x
    by (cases x) (auto simp: startOfDay_eq_iff)
  then show ?thesis
    by (auto simp: isHoliday_def list_ex_iff)
qed

lemma isWorkingDay_iff:
  "isWorkingDay t wds \<longleftrightarrow> Num (of_int (getDay t)) \<in> set wds"
  by (simp add: isWorkingDay_def)

lemma isWorkingDay_default:
  "isWorkingDay t [Num 1, Num 2, Num 3, Num 4, Num 5] \<longleftrightarrow> getDay t \<in> {1, 2, 3, 4, 5}"
proof -
  have "(of_int (getDay t) :: rat) = of_int k \<longleftrightarrow> getDay t = k" for k
    by (rule of_int_eq_iff)
  from this [of 1] this [of 2] this [of 3] this [of 4] this [of 5]
  show ?thesis by (simp add: isWorkingDay_iff)
qed

text \<open>
  Claim C3. With options that normalize to a configuration, \<open>isWithinBusinessHours\<close>
  returns true exactly when the instant is valid, its weekday is among the working days,
  no holiday entry lies on its calendar day, and its minute-of-day is at least the start
  minute and less than the end minute. With the default calendar, on a day from Monday to
  Friday, it returns true at minute 540 and false at minute 1020.
\<close>

theorem isWithinBusinessHours_iff:
  "(\<forall>cfg. normalizeBusinessHoursOptions options = Inr cfg \<longrightarrow>
      isWithinBusinessHours date options =
        Inr (\<exists>t. date = Date t
               \<and> Num (of_int (getDay t)) \<in> set (workingDays cfg)
               \<and> \<not> (\<exists>h. Date h \<in> set (holidays cfg) \<and> h div msInDay = t div msInDay)
               \<and> startHour cfg * 60 + startMinute cfg \<le> minuteOfDay t
               \<and> minuteOfDay t < endHour cfg * 60 + endMinute cfg))
   \<and> (\<forall>t. getDay t \<in> {1, 2, 3, 4, 5} \<and> minuteOfDay t = 540 \<longrightarrow>
          isWithinBusinessHours (Date t) noOptions = Inr True)
   \<and> (\<forall>t. getDay t \<in> {1, 2, 3, 4, 5} \<and> minuteOfDay t = 1020 \<longrightarrow>
          isWithinBusinessHours (Date t) noOptions = Inr False)"
proof (intro conjI allI impI)
  fix cfg assume "normalizeBusinessHoursOptions options = Inr cfg"
  then show "isWithinBusinessHours date options =
        Inr (\<exists>t. date = Date t
               \<and> Num (of_int (getDay t)) \<in> set (workingDays cfg)
               \<and> \<not> (\<exists>h. Date h \<in> set (holidays cfg) \<and> h div msInDay = t div msInDay)
               \<and> startHour cfg * 60 + startMinute cfg \<le> minuteOfDay t
               \<and> minuteOfDay t < endHour cfg * 60 + endMinute cfg)"
    by (cases date)
       (simp_all add: isWithinBusinessHours_def Let_def minuteOfDay_eq
          isHoliday_iff isWorkingDay_iff)
next
  fix t assume "getDay t \<in> {1, 2, 3, 4, 5} \<and> minuteOfDay t = 540"
  then show "isWithinBusinessHours (Date t) noOptions = Inr True"
    by (simp add: isWithinBusinessHours_def normalize_noOptions Let_def minuteOfDay_eq
        isWorkingDay_default isHoliday_def)
next
  fix t assume "getDay t \<in> {1, 2, 3, 4, 5} \<and> minuteOfDay t = 1020"
  then show "isWithinBusinessHours (Date t) noOptions = Inr False"
    by (simp add: isWithinBusinessHours_def normalize_noOptions Let_def minuteOfDay_eq
        isWorkingDay_default isHoliday_def)
qed

theorem isWithinBusinessHours_iff_witness:
  "normalizeBusinessHoursOptions noOptions =
     Inr \<lparr>startHour = 9, startMinute = 0, endHour = 17, endMinute = 0,
          workingDays = [Num 1, Num 2, Num 3, Num 4, Num 5], holidays = []\<rparr>
   \<and> getDay 1672736400000 = 2 \<and> minuteOfDay 1672736400000 = 540
   \<and> isWithinBusinessHours (Date 1672736400000) noOptions = Inr True
   \<and> getDay 1672765200000 = 2 \<and> minuteOfDay 1672765200000 = 1020
   \<and> isWithinBusinessHours (Date 1672765200000) noOptions = Inr False"
  using isWithinBusinessHours_iff [of noOptions "Date 1672736400000"]
  by (simp add: normalize_noOptions getDay_def minuteOfDay_def)

section \<open>The hours of an interval\<close>


lemma normalize_Inr:
  assumes "normalizeBusinessHoursOptions options = Inr cfg"
  shows "0 \<le> startHour cfg" "startHour cfg \<le> 23" "0 \<le> startMinute cfg" "startMinute cfg \<le> 59"
    "0 \<le> endHour cfg" "endHour cfg \<le> 23" "0 \<le> endMinute cfg" "endMinute cfg \<le> 59"
    "startHour cfg * 60 + startMinute cfg < endHour cfg * 60 + endMinute cfg"
proof -
  let ?s = "parseTimeString
    (case opt_startOfDay options of Undefined \<Rightarrow> Value ''09:00'' | v \<Rightarrow> v)"
  let ?e = "parseTimeString
    (case opt_endOfDay options of Undefined \<Rightarrow> Value ''17:00'' | v \<Rightarrow> v)"
  from assms obtain sh sm where s: "?s = Inr (sh, sm)"
    by (cases ?s) (auto simp: normalizeBusinessHoursOptions_def)
  from assms s obtain eh em where e: "?e = Inr (eh, em)"
    by (cases ?e) (auto simp: normalizeBusinessHoursOptions_def)
  from assms s e have gt: "\<not> (eh < sh \<or> (eh = sh \<and> em \<le> sm))"
    by (simp add: normalizeBusinessHoursOptions_def split: if_splits)
  from assms s e gt have cfg:
    "startHour cfg = sh" "startMinute cfg = sm" "endHour cfg = eh" "endMinute cfg = em"
    by (auto simp: normalizeBusinessHoursOptions_def split: if_splits field.splits)
  note r = parseTimeString_range [OF s] parseTimeString_range [OF e]
  from r cfg show "0 \<le> startHour cfg" "startHour cfg \<le> 23" "0 \<le> startMinute cfg"
    "startMinute cfg \<le> 59" "0 \<le> endHour cfg" "endHour cfg \<le> 23" "0 \<le> endMinute cfg"
    "endMinute cfg \<le> 59" by simp_all
  from r cfg gt show "startHour cfg * 60 + startMinute cfg < endHour cfg * 60 + endMinute cfg"
    by auto
qed

lemma startOfDay_day [simp]: "startOfDay (d * msInDay) = d * msInDay"
  by (simp add: startOfDay_def)

lemma setHours_day: "setHours (d * msInDay) h m = d * msInDay + h * msInHour + m * msInMinute"
  by (simp add: setHours_def)

subsection \<open>Rounding to a double\<close>

lemma roundHalfEven_near: "\<bar>of_int (roundHalfEven q) - q\<bar> \<le> 1 / 2"
proof -
  define r where "r = q - of_int \<lfloor>q\<rfloor>"
  have r: "0 \<le> r" "r < 1"
    unfolding r_def by linarith+
  have q: "q = of_int \<lfloor>q\<rfloor> + r"
    by (simp add: r_def)
  have "roundHalfEven q = \<lfloor>q\<rfloor> \<and> r \<le> 1 / 2
      \<or> roundHalfEven q = \<lfloor>q\<rfloor> + 1 \<and> 1 / 2 \<le> r"
    by (auto simp: roundHalfEven_def Let_def r_def)
  then show ?thesis
  proof (elim disjE conjE)
    assume "roundHalfEven q = \<lfloor>q\<rfloor>" "r \<le> 1 / 2"
    with r have "\<bar>of_int (roundHalfEven q) - q\<bar> = r"
      by (subst (2) q) simp
    with \<open>r \<le> 1 / 2\<close> show ?thesis by simp
  next
    assume "roundHalfEven q = \<lfloor>q\<rfloor> + 1" "1 / 2 \<le> r"
    with r have "\<bar>of_int (roundHalfEven q) - q\<bar> = 1 - r"
      by (subst (2) q) simp
    with \<open>1 / 2 \<le> r\<close> show ?thesis by simp
  qed
qed

lemma exponentOf_le:
  assumes "0 < x"
  shows "2 powi exponentOf x \<le> x"
proof (cases "1 \<le> x")
  case True
  define n where "n = \<lfloor>x\<rfloor>"
  from True have n: "0 < n" by (simp add: n_def)
  then have "1 \<le> bitlen n" by (simp add: bitlen_alt_def)
  then have "(2 :: rat) powi (bitlen n - 1) = 2 ^ nat (bitlen n - 1)"
    by (simp add: power_int_def)
  also have "\<dots> = of_int (2 ^ nat (bitlen n - 1))" by simp
  also have "\<dots> \<le> of_int n"
    using bitlen_bounds [OF n] by (simp only: of_int_le_iff)
  also have "\<dots> \<le> x" by (simp add: n_def)
  finally show ?thesis using True by (simp add: exponentOf_def n_def)
next
  case False
  define c where "c = \<lceil>1 / x\<rceil>"
  define k where "k = bitlen (c - 1)"
  from False assms have "1 < 1 / x" by simp
  then have c: "0 < c - 1" by (simp add: c_def less_ceiling_iff)
  then have k: "1 \<le> k" by (simp add: k_def bitlen_alt_def)
  from bitlen_bounds [OF c] have "c - 1 < 2 ^ nat k" by (simp add: k_def)
  then have "c \<le> 2 ^ nat k" by simp
  then have "(of_int c :: rat) \<le> of_int (2 ^ nat k)" by (simp only: of_int_le_iff)
  then have "(of_int c :: rat) \<le> 2 ^ nat k" by simp
  moreover have "1 / x \<le> of_int c" by (simp add: c_def)
  ultimately have "1 / x \<le> 2 ^ nat k" by (rule order_trans [rotated])
  with assms have "1 / 2 ^ nat k \<le> x"
    by (simp add: field_simps)
  moreover have "(2 :: rat) powi (- k) = 1 / 2 ^ nat k"
    using k by (simp add: power_int_def field_simps)
  ultimately show ?thesis
    using False by (simp add: exponentOf_def c_def k_def)
qed

lemma exponentOf_less:
  assumes "0 < x"
  shows "x < 2 powi (exponentOf x + 1)"
proof (cases "1 \<le> x")
  case True
  define n where "n = \<lfloor>x\<rfloor>"
  from True have n: "0 < n" by (simp add: n_def)
  then have b: "1 \<le> bitlen n" by (simp add: bitlen_alt_def)
  from bitlen_bounds [OF n] have "n + 1 \<le> 2 ^ nat (bitlen n)" by simp
  then have "(of_int (n + 1) :: rat) \<le> of_int (2 ^ nat (bitlen n))"
    by (simp only: of_int_le_iff)
  moreover have "x < of_int (n + 1)"
    unfolding n_def by linarith
  ultimately have "x < 2 ^ nat (bitlen n)" by simp
  moreover have "(2 :: rat) powi (bitlen n - 1 + 1) = 2 ^ nat (bitlen n)"
    using b by (simp add: power_int_def)
  ultimately show ?thesis using True by (simp add: exponentOf_def n_def)
next
  case False
  define c where "c = \<lceil>1 / x\<rceil>"
  define k where "k = bitlen (c - 1)"
  from False assms have "1 < 1 / x" by simp
  then have c: "0 < c - 1" by (simp add: c_def less_ceiling_iff)
  then have k: "1 \<le> k" by (simp add: k_def bitlen_alt_def)
  from bitlen_bounds [OF c] have "2 ^ nat (k - 1) \<le> c - 1" by (simp add: k_def)
  then have "(of_int (2 ^ nat (k - 1)) :: rat) \<le> of_int (c - 1)"
    by (simp only: of_int_le_iff)
  moreover have "of_int (c - 1) < 1 / x"
    unfolding c_def by linarith
  ultimately have "2 ^ nat (k - 1) < 1 / x" by simp
  with assms have "x < 1 / 2 ^ nat (k - 1)"
    by (simp add: field_simps)
  moreover have "(2 :: rat) powi (- k + 1) = 1 / 2 ^ nat (k - 1)"
    using k by (simp add: power_int_def field_simps nat_diff_distrib)
  ultimately show ?thesis
    using False by (simp add: exponentOf_def c_def k_def)
qed

lemma toDouble_error:
  assumes "0 \<le> x"
  shows "\<bar>toDouble x - x\<bar> \<le> x / 2 ^ 53"
proof (cases "x = 0")
  case True
  then show ?thesis by (simp add: toDouble_def)
next
  case False
  with assms have pos: "0 < x" by simp
  define ulp :: rat where "ulp = 2 powi (exponentOf x - 52)"
  define m where "m = roundHalfEven (x / ulp)"
  have ulp: "0 < ulp" by (simp add: ulp_def)
  have val: "toDouble x = of_int m * ulp"
    using pos by (simp add: toDouble_def Let_def ulp_def m_def)
  have "of_int m * ulp - x = (of_int m - x / ulp) * ulp"
    using ulp by (simp add: field_simps)
  then have "\<bar>of_int m * ulp - x\<bar> = \<bar>of_int m - x / ulp\<bar> * ulp"
    using ulp by (simp add: abs_mult)
  also have "\<dots> \<le> (1 / 2) * ulp"
    using roundHalfEven_near [of "x / ulp"] ulp
    by (intro mult_right_mono) (simp_all add: m_def)
  also have "(1 / 2) * ulp = 2 powi exponentOf x / 2 ^ 53"
    by (simp add: ulp_def power_int_diff)
  also have "\<dots> \<le> x / 2 ^ 53"
    using exponentOf_le [OF pos] by (simp add: divide_right_mono)
  finally show ?thesis by (simp add: val)
qed

lemma toDouble_bounds:
  assumes "0 \<le> x"
  shows "x * (1 - unitRoundoff) \<le> toDouble x" "toDouble x \<le> x * (1 + unitRoundoff)"
proof -
  from toDouble_error [OF assms]
  have "x - toDouble x \<le> x / 2 ^ 53" "toDouble x - x \<le> x / 2 ^ 53"
    by linarith+
  then show "x * (1 - unitRoundoff) \<le> toDouble x" "toDouble x \<le> x * (1 + unitRoundoff)"
    by (simp_all add: unitRoundoff_def algebra_simps)
qed

text \<open>The doubles nearest to some hours, as the code computes them.\<close>

lemma toDouble_examples:
  "toDouble (7 / 10) = 3152519739159347 / 4503599627370496"
  "toDouble (1 / 20) = 3602879701896397 / 72057594037927936"
  "toDouble (13 / 20) = 5854679515581645 / 9007199254740992"
  "toDouble 24 = 24"
  "toDouble (1 / 3600000) = 5247073869855161 / 18889465931478580854784"
  by code_simp+

text \<open>
  One rounded addition of one rounded term keeps a running total within the factors
  \<open>(1 - u)\<^sup>k\<close> and \<open>(1 + u)\<^sup>k\<close> of the exact total, with one more power.
\<close>

lemma rounded_step:
  fixes u E h T hr T' :: rat
  assumes u: "0 \<le> u" "u \<le> 1" and k: "1 \<le> k" and E: "0 \<le> E" and h: "0 \<le> h"
    and T: "E * (1 - u) ^ k \<le> T" "T \<le> E * (1 + u) ^ k"
    and hr: "h * (1 - u) \<le> hr" "hr \<le> h * (1 + u)"
    and T': "(T + hr) * (1 - u) \<le> T'" "T' \<le> (T + hr) * (1 + u)"
  shows "(E + h) * (1 - u) ^ Suc k \<le> T'" "T' \<le> (E + h) * (1 + u) ^ Suc k"
proof -
  have up: "1 + u \<le> (1 + u) ^ k"
    using u k by (intro self_le_power) simp_all
  have down: "(1 - u) ^ k \<le> 1 - u"
    using u k power_decreasing [of 1 k "1 - u"] by simp
  have "hr \<le> h * (1 + u) ^ k"
    using hr(2) mult_left_mono [OF up h] by linarith
  with T(2) have "T + hr \<le> (E + h) * (1 + u) ^ k"
    by (simp add: algebra_simps)
  then have "(T + hr) * (1 + u) \<le> (E + h) * (1 + u) ^ k * (1 + u)"
    using u by (intro mult_right_mono) simp_all
  with T'(2) show "T' \<le> (E + h) * (1 + u) ^ Suc k"
    by (simp add: mult.assoc mult.commute [of "1 + u"])
  have "h * (1 - u) ^ k \<le> hr"
    using hr(1) mult_left_mono [OF down h] by linarith
  with T(1) have "(E + h) * (1 - u) ^ k \<le> T + hr"
    by (simp add: algebra_simps)
  then have "(E + h) * (1 - u) ^ k * (1 - u) \<le> (T + hr) * (1 - u)"
    using u by (intro mult_right_mono) simp_all
  with T'(1) show "(E + h) * (1 - u) ^ Suc k \<le> T'"
    by (simp add: mult.assoc mult.commute [of "1 - u"])
qed

lemma widen_bounds:
  fixes u E T :: rat
  assumes "0 \<le> u" "u \<le> 1" "0 \<le> E" "k \<le> n"
    and "E * (1 - u) ^ k \<le> T" "T \<le> E * (1 + u) ^ k"
  shows "E * (1 - u) ^ n \<le> T" "T \<le> E * (1 + u) ^ n"
proof -
  have "(1 + u) ^ k \<le> (1 + u) ^ n"
    using assms(1,4) by (intro power_increasing) simp_all
  from mult_left_mono [OF this assms(3)] assms(6) show "T \<le> E * (1 + u) ^ n"
    by linarith
  have "(1 - u) ^ n \<le> (1 - u) ^ k"
    using assms(1,2,4) by (intro power_decreasing) simp_all
  from mult_left_mono [OF this assms(3)] assms(5) show "E * (1 - u) ^ n \<le> T"
    by linarith
qed


lemma unitRoundoff_range: "0 \<le> unitRoundoff" "unitRoundoff \<le> 1"
  by (simp_all add: unitRoundoff_def)

lemma toDouble_nonneg:
  assumes "0 \<le> x"
  shows "0 \<le> toDouble x"
proof -
  have "0 \<le> 1 - unitRoundoff"
    using unitRoundoff_range(2) by simp
  with assms have "0 \<le> x * (1 - unitRoundoff)"
    by (rule mult_nonneg_nonneg)
  with toDouble_bounds(1) [OF assms] show ?thesis
    by (rule order_trans [rotated])
qed

subsection \<open>The exact hours are additive\<close>

lemma exactOverlapHours_eq:
  "exactOverlapHours s e n cur =
     (if \<not> isWorkingDay cur (workingDays n) \<or> isHoliday cur (holidays n) then 0
      else if max s (setHours cur (startHour n) (startMinute n))
              \<le> min e (setHours cur (endHour n) (endMinute n))
      then of_int (min e (setHours cur (endHour n) (endMinute n))
                   - max s (setHours cur (startHour n) (startMinute n))) / 3600000
      else 0)"
  by (simp add: exactOverlapHours_def getWorkingHoursStart_def getWorkingHoursEnd_def)

lemma exactOverlapHours_nonneg: "0 \<le> exactOverlapHours s e n cur"
  by (simp add: exactOverlapHours_eq)

lemma window_additive:
  fixes a b c ws we :: int
  assumes "a \<le> b" "b \<le> c" "ws \<le> we"
  shows "(if max a ws \<le> min c we then (of_int (min c we - max a ws) :: rat) / 3600000 else 0)
       = (if max a ws \<le> min b we then of_int (min b we - max a ws) / 3600000 else 0)
       + (if max b ws \<le> min c we then of_int (min c we - max b ws) / 3600000 else 0)"
proof -
  define g :: "int \<Rightarrow> int \<Rightarrow> int" where "g x y = max 0 (min y we - max x ws)" for x y
  have eq: "(if max x ws \<le> min y we then (of_int (min y we - max x ws) :: rat) / 3600000 else 0)
      = of_int (g x y) / 3600000" for x y
    by (auto simp: g_def max_def min_def)
  have "g a c = g a b + g b c"
    using assms unfolding g_def by (simp add: max_def min_def)
  then show ?thesis
    unfolding eq by (simp add: add_divide_distrib)
qed

lemma exactOverlapHours_additive:
  assumes "a \<le> b" "b \<le> c"
    and "startHour n * 60 + startMinute n < endHour n * 60 + endMinute n"
  shows "exactOverlapHours a c n cur = exactOverlapHours a b n cur + exactOverlapHours b c n cur"
proof -
  have "setHours cur (startHour n) (startMinute n) \<le> setHours cur (endHour n) (endMinute n)"
    using assms(3) by (simp add: setHours_def)
  from window_additive [OF assms(1,2) this] show ?thesis
    by (simp add: exactOverlapHours_eq)
qed

lemma exactOverlapHours_later_day:
  assumes "0 \<le> startHour n" "0 \<le> startMinute n" "e div msInDay < d"
  shows "exactOverlapHours s e n (d * msInDay) = 0"
proof -
  have "e < d * msInDay"
    using assms(3) by (simp add: div_less_iff_less_mult)
  moreover have "d * msInDay \<le> setHours (d * msInDay) (startHour n) (startMinute n)"
    using assms(1,2) by (simp add: setHours_day)
  ultimately show ?thesis
    by (simp add: exactOverlapHours_eq)
qed

lemma exactOverlapHours_earlier_day:
  assumes "endHour n \<le> 23" "endMinute n \<le> 59" "d < s div msInDay"
  shows "exactOverlapHours s e n (d * msInDay) = 0"
proof -
  have "d + 1 \<le> s div msInDay" using assms(3) by simp
  then have "(d + 1) * msInDay \<le> s div msInDay * msInDay" by simp
  moreover have "s div msInDay * msInDay \<le> s"
    using div_mult_mod_eq [of s msInDay] pos_mod_sign [of msInDay s] by linarith
  ultimately have "(d + 1) * msInDay \<le> s" by linarith
  moreover have "setHours (d * msInDay) (endHour n) (endMinute n) < (d + 1) * msInDay"
    using assms(1,2) by (simp add: setHours_day)
  ultimately show ?thesis
    by (simp add: exactOverlapHours_eq)
qed

lemma exactBusinessHours_nonneg: "0 \<le> exactBusinessHours s e n"
  by (simp add: exactBusinessHours_def sum_nonneg exactOverlapHours_nonneg)

lemma exactBusinessHours_additive:
  assumes "normalizeBusinessHoursOptions options = Inr cfg" and "a \<le> b" and "b \<le> c"
  shows "exactBusinessHours a c cfg = exactBusinessHours a b cfg + exactBusinessHours b c cfg"
proof -
  note cfg = normalize_Inr [OF assms(1)]
  let ?da = "a div msInDay" and ?db = "b div msInDay" and ?dc = "c div msInDay"
  have days: "?da \<le> ?db" "?db \<le> ?dc"
    using assms(2,3) by (simp_all add: zdiv_mono1)
  have "(\<Sum>d = ?da..?dc. exactOverlapHours a c cfg (d * msInDay))
      = (\<Sum>d = ?da..?dc. exactOverlapHours a b cfg (d * msInDay))
        + (\<Sum>d = ?da..?dc. exactOverlapHours b c cfg (d * msInDay))"
    by (simp add: exactOverlapHours_additive [OF assms(2,3) cfg(9)] sum.distrib)
  also have "(\<Sum>d = ?da..?dc. exactOverlapHours a b cfg (d * msInDay))
      = (\<Sum>d = ?da..?db. exactOverlapHours a b cfg (d * msInDay))"
    using days by (intro sum.mono_neutral_right)
      (auto simp: exactOverlapHours_later_day [OF cfg(1,3)])
  also have "(\<Sum>d = ?da..?dc. exactOverlapHours b c cfg (d * msInDay))
      = (\<Sum>d = ?db..?dc. exactOverlapHours b c cfg (d * msInDay))"
    using days by (intro sum.mono_neutral_right)
      (auto simp: exactOverlapHours_earlier_day [OF cfg(6,8)])
  finally show ?thesis
    by (simp add: exactBusinessHours_def)
qed

subsection \<open>The loop adds the rounded hours of each day\<close>

lemma overlapHours_None: "overlapHours s e n cur = None \<Longrightarrow> exactOverlapHours s e n cur = 0"
  by (auto simp: overlapHours_def exactOverlapHours_def isBefore_def Let_def
      split: option.splits if_splits)

lemma overlapHours_Some:
  "overlapHours s e n cur = Some h \<Longrightarrow> h = toDouble (exactOverlapHours s e n cur)"
  by (auto simp: overlapHours_def exactOverlapHours_def isBefore_def Let_def
      split: option.splits if_splits)

lemma daysLoop_foldl:
  "daysLoop s e n (j * msInDay) acc (i * msInDay) = foldl (addDayHours s e n) acc [i..j]"
proof (induction "nat (j + 1 - i)" arbitrary: i acc)
  case 0
  then have "j < i" by simp
  then show ?case
    by (subst daysLoop.simps) (simp add: isBefore_def addDays_def)
next
  case (Suc k)
  then have le: "i \<le> j" and k: "k = nat (j + 1 - (i + 1))" by simp_all
  have step: "daysLoop s e n (j * msInDay) acc (i * msInDay)
      = daysLoop s e n (j * msInDay) (addDayHours s e n acc i) ((i + 1) * msInDay)"
    using le by (subst daysLoop.simps) (simp add: isBefore_def addDays_def addDayHours_def)
  show ?case
    unfolding step Suc.hyps(1) [OF k]
    by (simp add: upto_rec1 [OF le])
qed

lemma businessHoursInInterval_foldl:
  assumes "normalizeBusinessHoursOptions options = Inr cfg" "s \<le> e"
  shows "businessHoursInInterval (Date s) (Date e) options
     = Inr (foldl (addDayHours s e cfg) 0 [s div msInDay..e div msInDay])"
  using assms daysLoop_foldl [of s e cfg "e div msInDay" 0 "s div msInDay"]
  by (simp add: businessHoursInInterval_def isAfter_def startOfDay_def)

subsection \<open>The total is within one rounding per operation of the exact hours\<close>

lemma withinRoundings_widen:
  assumes "0 \<le> E" "k \<le> n" "withinRoundings k E T"
  shows "withinRoundings n E T"
  using widen_bounds [OF unitRoundoff_range assms(1,2)] assms(3)
  by (simp add: withinRoundings_def)

lemma withinRoundings_add:
  assumes "withinRoundings n E1 y" "withinRoundings n E2 z"
  shows "withinRoundings n (E1 + E2) (y + z)"
  using assms by (simp add: withinRoundings_def algebra_simps add_mono)

lemma withinRoundings_nonneg:
  assumes "0 \<le> E" "withinRoundings n E T"
  shows "0 \<le> T"
proof -
  have "0 \<le> (1 - unitRoundoff) ^ n"
    using unitRoundoff_range(2) by simp
  with assms(1) have "0 \<le> E * (1 - unitRoundoff) ^ n"
    by (rule mult_nonneg_nonneg)
  with assms(2) show ?thesis
    by (simp add: withinRoundings_def)
qed

lemma withinRoundings_toDouble:
  assumes "0 \<le> E" "withinRoundings n E T"
  shows "withinRoundings (Suc n) E (toDouble T)"
proof -
  note T = withinRoundings_nonneg [OF assms]
  note r = toDouble_bounds [OF T]
  have "E * (1 - unitRoundoff) ^ n * (1 - unitRoundoff) \<le> T * (1 - unitRoundoff)"
    using assms(2) unitRoundoff_range(2)
    by (intro mult_right_mono) (simp_all add: withinRoundings_def)
  moreover have "T * (1 + unitRoundoff) \<le> E * (1 + unitRoundoff) ^ n * (1 + unitRoundoff)"
    using assms(2) unitRoundoff_range(1)
    by (intro mult_right_mono) (simp_all add: withinRoundings_def)
  ultimately show ?thesis
    using r by (simp add: withinRoundings_def mult.assoc mult.commute [of "1 - unitRoundoff"]
        mult.commute [of "1 + unitRoundoff"])
qed

lemma addDayHours_withinRoundings:
  assumes k: "1 \<le> k" and E: "0 \<le> E" and T: "withinRoundings k E T"
  shows "withinRoundings (Suc k) (E + exactOverlapHours s e n (d * msInDay))
           (addDayHours s e n T d)"
proof (cases "overlapHours s e n (d * msInDay)")
  case None
  then have "addDayHours s e n T d = T" "exactOverlapHours s e n (d * msInDay) = 0"
    by (simp_all add: addDayHours_def overlapHours_None)
  with withinRoundings_widen [OF E _ T, of "Suc k"] show ?thesis
    by simp
next
  case (Some hr)
  define h where "h = exactOverlapHours s e n (d * msInDay)"
  have h: "0 \<le> h"
    by (simp add: h_def exactOverlapHours_nonneg)
  have hr: "hr = toDouble h"
    using overlapHours_Some [OF Some] by (simp add: h_def)
  have val: "addDayHours s e n T d = toDouble (T + hr)"
    using Some by (simp add: addDayHours_def)
  have "0 \<le> T"
    by (rule withinRoundings_nonneg [OF E T])
  moreover have "0 \<le> hr"
    unfolding hr by (rule toDouble_nonneg [OF h])
  ultimately have sum: "0 \<le> T + hr"
    by simp
  from T have T': "E * (1 - unitRoundoff) ^ k \<le> T" "T \<le> E * (1 + unitRoundoff) ^ k"
    by (simp_all add: withinRoundings_def)
  from rounded_step [OF unitRoundoff_range k E h T'
      toDouble_bounds [OF h, folded hr] toDouble_bounds [OF sum]]
  show ?thesis
    by (simp only: withinRoundings_def val h_def [symmetric])
qed

lemma foldl_withinRoundings:
  assumes "1 \<le> k" "0 \<le> E" "withinRoundings k E T"
  shows "withinRoundings (k + length ds)
           (E + (\<Sum>d\<leftarrow>ds. exactOverlapHours s e n (d * msInDay)))
           (foldl (addDayHours s e n) T ds)"
  using assms
proof (induction ds arbitrary: k E T)
  case Nil
  then show ?case by simp
next
  case (Cons d ds)
  have "0 \<le> E + exactOverlapHours s e n (d * msInDay)"
    using Cons.prems(2) exactOverlapHours_nonneg [of s e n "d * msInDay"] by simp
  from Cons.IH [OF _ this addDayHours_withinRoundings [OF Cons.prems]]
  show ?case
    by (simp add: add.assoc)
qed

lemma businessHoursInInterval_withinRoundings:
  assumes "normalizeBusinessHoursOptions options = Inr cfg" "s \<le> e"
  shows "\<exists>x. businessHoursInInterval (Date s) (Date e) options = Inr x
           \<and> withinRoundings (nat (e div msInDay - s div msInDay) + 2)
               (exactBusinessHours s e cfg) x"
proof -
  let ?ds = "[s div msInDay..e div msInDay]"
  have le: "s div msInDay \<le> e div msInDay"
    using assms(2) by (simp add: zdiv_mono1)
  have "withinRoundings 1 0 0"
    by (simp add: withinRoundings_def)
  from foldl_withinRoundings [OF _ _ this, of ?ds s e cfg]
  have "withinRoundings (1 + length ?ds) (\<Sum>d\<leftarrow>?ds. exactOverlapHours s e cfg (d * msInDay))
          (foldl (addDayHours s e cfg) 0 ?ds)"
    by simp
  moreover have "(\<Sum>d\<leftarrow>?ds. exactOverlapHours s e cfg (d * msInDay)) = exactBusinessHours s e cfg"
    by (simp add: exactBusinessHours_def sum_list_distinct_conv_sum_set)
  moreover have "1 + length ?ds = nat (e div msInDay - s div msInDay) + 2"
    using le by simp
  ultimately show ?thesis
    by (simp add: businessHoursInInterval_foldl [OF assms])
qed

text \<open>
  Claim C2. With options that normalize to a configuration and valid instants
  \<open>a \<le> b \<le> c\<close>, the three calls return numbers of hours \<open>x\<close>, \<open>y\<close> and \<open>z\<close>. The
  exact hours over \<open>{a, c}\<close> are the sum of the exact hours over \<open>{a, b}\<close> and over
  \<open>{b, c}\<close>. The doubles that the code returns are within one rounding for each division
  and each addition of the exact hours: \<open>x\<close> and \<open>y + z\<close> lie between the exact hours
  over \<open>{a, c}\<close> times \<open>(1 - 2\<^sup>-\<^sup>5\<^sup>3)\<^sup>n\<close> and times \<open>(1 + 2\<^sup>-\<^sup>5\<^sup>3)\<^sup>n\<close>, where \<open>n\<close> is the number
  of calendar days from \<open>a\<close> to \<open>c\<close> plus one, and the double sum of \<open>y\<close> and \<open>z\<close> is
  within one more rounding.
\<close>

theorem businessHoursInInterval_additive_up_to_rounding:
  assumes "normalizeBusinessHoursOptions options = Inr cfg" and "a \<le> b" and "b \<le> c"
  shows "\<exists>x y z. businessHoursInInterval (Date a) (Date c) options = Inr x
           \<and> businessHoursInInterval (Date a) (Date b) options = Inr y
           \<and> businessHoursInInterval (Date b) (Date c) options = Inr z
           \<and> exactBusinessHours a c cfg = exactBusinessHours a b cfg + exactBusinessHours b c cfg
           \<and> withinRoundings (nat (c div msInDay - a div msInDay) + 2)
               (exactBusinessHours a c cfg) x
           \<and> withinRoundings (nat (c div msInDay - a div msInDay) + 2)
               (exactBusinessHours a c cfg) (y + z)
           \<and> withinRoundings (nat (c div msInDay - a div msInDay) + 3)
               (exactBusinessHours a c cfg) (toDouble (y + z))"
proof -
  let ?n = "nat (c div msInDay - a div msInDay) + 2"
  define da db dc where "da = a div msInDay" and "db = b div msInDay" and "dc = c div msInDay"
  have "da \<le> db" "db \<le> dc"
    using assms(2,3) by (simp_all add: da_def db_def dc_def zdiv_mono1)
  then have "nat (db - da) + 2 \<le> nat (dc - da) + 2" "nat (dc - db) + 2 \<le> nat (dc - da) + 2"
    by simp_all
  then have days: "nat (b div msInDay - a div msInDay) + 2 \<le> ?n"
    "nat (c div msInDay - b div msInDay) + 2 \<le> ?n"
    unfolding da_def db_def dc_def .
  from assms(2,3) have ac: "a \<le> c" by simp
  from businessHoursInInterval_withinRoundings [OF assms(1) ac] obtain x
    where x: "businessHoursInInterval (Date a) (Date c) options = Inr x"
      "withinRoundings ?n (exactBusinessHours a c cfg) x"
    by blast
  from businessHoursInInterval_withinRoundings [OF assms(1,2)] obtain y
    where y: "businessHoursInInterval (Date a) (Date b) options = Inr y"
      "withinRoundings (nat (b div msInDay - a div msInDay) + 2) (exactBusinessHours a b cfg) y"
    by blast
  from businessHoursInInterval_withinRoundings [OF assms(1,3)] obtain z
    where z: "businessHoursInInterval (Date b) (Date c) options = Inr z"
      "withinRoundings (nat (c div msInDay - b div msInDay) + 2) (exactBusinessHours b c cfg) z"
    by blast
  note add = exactBusinessHours_additive [OF assms]
  have y': "withinRoundings ?n (exactBusinessHours a b cfg) y"
    by (rule withinRoundings_widen [OF exactBusinessHours_nonneg days(1) y(2)])
  have z': "withinRoundings ?n (exactBusinessHours b c cfg) z"
    by (rule withinRoundings_widen [OF exactBusinessHours_nonneg days(2) z(2)])
  have yz: "withinRoundings ?n (exactBusinessHours a c cfg) (y + z)"
    unfolding add by (rule withinRoundings_add [OF y' z'])
  have "Suc ?n = nat (c div msInDay - a div msInDay) + 3"
    by simp
  note rounded = withinRoundings_toDouble [OF exactBusinessHours_nonneg yz, unfolded this]
  show ?thesis
    by (rule exI [of _ x], rule exI [of _ y], rule exI [of _ z])
      (intro conjI x y(1) z(1) add yz rounded)
qed

lemma hours_0900_to_0942:
  "businessHoursInInterval (Date 1672650000000) (Date 1672652520000) noOptions
     = Inr (3152519739159347 / 4503599627370496)"
  by code_simp

lemma hours_0900_to_0903:
  "businessHoursInInterval (Date 1672650000000) (Date 1672650180000) noOptions
     = Inr (3602879701896397 / 72057594037927936)"
  by code_simp

lemma hours_0903_to_0942:
  "businessHoursInInterval (Date 1672650180000) (Date 1672652520000) noOptions
     = Inr (5854679515581645 / 9007199254740992)"
  by code_simp

lemma double_sum_0903:
  "toDouble (3602879701896397 / 72057594037927936 + 5854679515581645 / 9007199254740992)
     = 6305039478318695 / 9007199254740992"
  by code_simp

lemma exact_hours_0900_to_0942:
  "exactBusinessHours 1672650000000 1672652520000 defaultCalendar = 7 / 10"
  "exactBusinessHours 1672650000000 1672650180000 defaultCalendar = 1 / 20"
  "exactBusinessHours 1672650180000 1672652520000 defaultCalendar = 13 / 20"
  by code_simp+

theorem businessHoursInInterval_additive_up_to_rounding_witness:
  "(1672650000000 :: int) \<le> 1672650180000 \<and> (1672650180000 :: int) \<le> 1672652520000
   \<and> normalizeBusinessHoursOptions noOptions = Inr defaultCalendar
   \<and> exactBusinessHours 1672650000000 1672652520000 defaultCalendar = 7 / 10
   \<and> exactBusinessHours 1672650000000 1672650180000 defaultCalendar = 1 / 20
   \<and> exactBusinessHours 1672650180000 1672652520000 defaultCalendar = 13 / 20
   \<and> withinRoundings 2 (7 / 10) (3152519739159347 / 4503599627370496)
   \<and> withinRoundings 2 (7 / 10)
       (3602879701896397 / 72057594037927936 + 5854679515581645 / 9007199254740992)
   \<and> withinRoundings 3 (7 / 10) (6305039478318695 / 9007199254740992)"
proof -
  have le: "(1672650000000 :: int) \<le> 1672650180000" "(1672650180000 :: int) \<le> 1672652520000"
    by simp_all
  have n: "nat (1672652520000 div msInDay - 1672650000000 div msInDay) + 2 = 2"
    "nat (1672652520000 div msInDay - 1672650000000 div msInDay) + 3 = 3"
    by simp_all
  from businessHoursInInterval_additive_up_to_rounding [OF normalize_noOptions le]
  obtain x y z where r:
    "businessHoursInInterval (Date 1672650000000) (Date 1672652520000) noOptions = Inr x"
    "businessHoursInInterval (Date 1672650000000) (Date 1672650180000) noOptions = Inr y"
    "businessHoursInInterval (Date 1672650180000) (Date 1672652520000) noOptions = Inr z"
    "withinRoundings 2 (7 / 10) x"
    "withinRoundings 2 (7 / 10) (y + z)"
    "withinRoundings 3 (7 / 10) (toDouble (y + z))"
    unfolding n exact_hours_0900_to_0942 by blast
  have x: "x = 3152519739159347 / 4503599627370496"
    using r(1) unfolding hours_0900_to_0942 by simp
  have y: "y = 3602879701896397 / 72057594037927936"
    using r(2) unfolding hours_0900_to_0903 by simp
  have z: "z = 5854679515581645 / 9007199254740992"
    using r(3) unfolding hours_0903_to_0942 by simp
  note w = r(4) [unfolded x] r(5) [unfolded y z] r(6) [unfolded y z double_sum_0903]
  show ?thesis
    by (intro conjI le normalize_noOptions exact_hours_0900_to_0942 w)
qed

theorem additivity_fails_in_doubles:
  "businessHoursInInterval (Date 1672650000000) (Date 1672652520000) noOptions
     = Inr (3152519739159347 / 4503599627370496)
   \<and> businessHoursInInterval (Date 1672650000000) (Date 1672650180000) noOptions
     = Inr (3602879701896397 / 72057594037927936)
   \<and> businessHoursInInterval (Date 1672650180000) (Date 1672652520000) noOptions
     = Inr (5854679515581645 / 9007199254740992)
   \<and> (3152519739159347 / 4503599627370496 :: rat)
     \<noteq> 3602879701896397 / 72057594037927936 + 5854679515581645 / 9007199254740992
   \<and> (3152519739159347 / 4503599627370496 :: rat)
     \<noteq> toDouble (3602879701896397 / 72057594037927936 + 5854679515581645 / 9007199254740992)"
proof -
  have exact_sum: "(3152519739159347 / 4503599627370496 :: rat)
      \<noteq> 3602879701896397 / 72057594037927936 + 5854679515581645 / 9007199254740992"
    by simp
  have double_sum: "(3152519739159347 / 4503599627370496 :: rat)
      \<noteq> toDouble (3602879701896397 / 72057594037927936 + 5854679515581645 / 9007199254740992)"
    unfolding double_sum_0903 by simp
  show ?thesis
    by (intro conjI hours_0900_to_0942 hours_0900_to_0903 hours_0903_to_0942
        exact_sum double_sum)
qed


section \<open>Holidays\<close>

lemma isHoliday_same_day:
  "a div msInDay = b div msInDay \<Longrightarrow> isHoliday a hs = isHoliday b hs"
  by (simp add: isHoliday_iff)

lemma holiday_options:
  "normalizeBusinessHoursOptions (noOptions\<lparr>opt_holidays := Value [Date 1672722000000]\<rparr>) =
     Inr \<lparr>startHour = 9, startMinute = 0, endHour = 17, endMinute = 0,
          workingDays = [Num 1, Num 2, Num 3, Num 4, Num 5],
          holidays = [Date 1672722000000]\<rparr>"
  by code_simp

lemma foldl_filter_unchanged:
  assumes "\<And>acc x. \<not> P x \<Longrightarrow> f acc x = acc"
  shows "foldl f acc (filter P xs) = foldl f acc xs"
  using assms by (induction xs arbitrary: acc) simp_all

text \<open>
  Claim C4. A holiday entry \<open>h\<close> matches by its calendar day alone: for every instant
  \<open>t\<close> of the day of \<open>h\<close>, whatever the time of day of either, \<open>isHoliday\<close> is true, the
  day has no working window, \<open>isWithinBusinessHours\<close> is false, and the pass of the day
  loop for that day adds nothing to the total: its exact hours are 0, it leaves every
  running total as it is, and \<open>businessHoursInInterval\<close> is the total of the passes
  for the other days of the interval.
\<close>

theorem holiday_removes_whole_day:
  assumes "Date h \<in> set (holidays cfg)" and "t div msInDay = h div msInDay"
  shows "isHoliday t (holidays cfg)
    \<and> getWorkingHoursStart t cfg = None
    \<and> getWorkingHoursEnd t cfg = None
    \<and> overlapHours s e cfg t = None
    \<and> exactOverlapHours s e cfg t = 0
    \<and> addDayHours s e cfg acc (h div msInDay) = acc
    \<and> (\<forall>options. normalizeBusinessHoursOptions options = Inr cfg \<longrightarrow>
          isWithinBusinessHours (Date t) options = Inr False
          \<and> (s \<le> e \<longrightarrow>
               businessHoursInInterval (Date s) (Date e) options =
                 Inr (foldl (addDayHours s e cfg) 0
                        (filter (\<lambda>d. d \<noteq> h div msInDay) [s div msInDay..e div msInDay]))))"
proof -
  have hol: "isHoliday t (holidays cfg)"
    using assms by (auto simp: isHoliday_iff)
  have none: "overlapHours s e cfg x = None" if "x div msInDay = h div msInDay" for x
    using that hol isHoliday_same_day [of x t "holidays cfg"] assms(2)
    by (simp add: overlapHours_def getWorkingHoursStart_def)
  have same: "addDayHours s e cfg total (h div msInDay) = total" for total
    by (simp add: addDayHours_def none)
  have "foldl (addDayHours s e cfg) 0
          (filter (\<lambda>d. d \<noteq> h div msInDay) [s div msInDay..e div msInDay])
      = foldl (addDayHours s e cfg) 0 [s div msInDay..e div msInDay]"
    by (rule foldl_filter_unchanged) (simp add: same)
  with hol none [OF assms(2)] same show ?thesis
    by (simp add: getWorkingHoursStart_def getWorkingHoursEnd_def businessHoursInInterval_foldl
        isWithinBusinessHours_def overlapHours_None)
qed

theorem holiday_removes_whole_day_witness:
  "normalizeBusinessHoursOptions (noOptions\<lparr>opt_holidays := Value [Date 1672722000000]\<rparr>) =
     Inr \<lparr>startHour = 9, startMinute = 0, endHour = 17, endMinute = 0,
          workingDays = [Num 1, Num 2, Num 3, Num 4, Num 5],
          holidays = [Date 1672722000000]\<rparr>
   \<and> (1672740000000 :: int) div msInDay = 1672722000000 div msInDay
   \<and> getDay 1672740000000 = 2
   \<and> isWithinBusinessHours (Date 1672740000000)
        (noOptions\<lparr>opt_holidays := Value [Date 1672722000000]\<rparr>) = Inr False
   \<and> isWithinBusinessHours (Date 1672740000000) noOptions = Inr True
   \<and> businessHoursInInterval (Date 1672650000000) (Date 1672851600000)
        (noOptions\<lparr>opt_holidays := Value [Date 1672722000000]\<rparr>) = Inr 16
   \<and> businessHoursInInterval (Date 1672650000000) (Date 1672851600000) noOptions = Inr 24"
proof -
  let ?cfg = "\<lparr>startHour = 9, startMinute = 0, endHour = 17, endMinute = 0,
          workingDays = [Num 1, Num 2, Num 3, Num 4, Num 5],
          holidays = [Date 1672722000000]\<rparr>"
  have others: "foldl (addDayHours 1672650000000 1672851600000 ?cfg) 0
      (filter (\<lambda>d. d \<noteq> 1672722000000 div msInDay)
         [1672650000000 div msInDay..1672851600000 div msInDay]) = 16"
    by code_simp
  have within: "isWithinBusinessHours (Date 1672740000000) noOptions = Inr True"
    by code_simp
  have every: "businessHoursInInterval (Date 1672650000000) (Date 1672851600000) noOptions
      = Inr 24"
    by code_simp
  have entry: "Date 1672722000000 \<in> set (holidays ?cfg)"
    by simp
  have day: "(1672740000000 :: int) div msInDay = 1672722000000 div msInDay"
    by simp
  from holiday_removes_whole_day [OF entry day, of 1672650000000 1672851600000]
  have "isWithinBusinessHours (Date 1672740000000)
          (noOptions\<lparr>opt_holidays := Value [Date 1672722000000]\<rparr>) = Inr False
      \<and> businessHoursInInterval (Date 1672650000000) (Date 1672851600000)
          (noOptions\<lparr>opt_holidays := Value [Date 1672722000000]\<rparr>) = Inr 16"
    unfolding others using holiday_options by simp
  then show ?thesis
    using within every day by (simp add: holiday_options getDay_def)
qed

section \<open>Time strings\<close>

lemma length_split: "length (split c s) = count_list s c + 1"
  by (induction s) (auto split: list.splits)

lemma split_no_separator: "c \<notin> set m \<Longrightarrow> split c m = [m]"
  by (induction m) auto

lemma split_two: "c \<notin> set h \<Longrightarrow> c \<notin> set m \<Longrightarrow> split c (h @ c # m) = [h, m]"
  by (induction h) (auto simp: split_no_separator)

lemma isDigit_plain:
  "isDigit c \<Longrightarrow> \<not> isWhiteSpace c \<and> c \<noteq> CHR ''-'' \<and> c \<noteq> CHR ''+''"
  by (auto simp: isDigit_def isWhiteSpace_def)

lemma digitsValue_nonneg_aux:
  "list_all isDigit ds \<Longrightarrow> 0 \<le> acc \<Longrightarrow> 0 \<le> foldl (\<lambda>acc c. 10 * acc + digitValue c) acc ds"
proof (induction ds arbitrary: acc)
  case Nil
  then show ?case by simp
next
  case (Cons d ds)
  from Cons.prems have "0 \<le> 10 * acc + digitValue d"
    by (simp add: isDigit_def digitValue_def)
  with Cons show ?case by simp
qed

lemma digitsValue_nonneg: "list_all isDigit ds \<Longrightarrow> 0 \<le> digitsValue ds"
  by (simp add: digitsValue_def digitsValue_nonneg_aux)

lemma parseInt_numericField:
  assumes "numericField f"
  shows "parseInt f = Some (digitsValue f)"
proof -
  from assms obtain c r where f: "f = c # r" and c: "isDigit c" and all: "list_all isDigit f"
    by (cases f) (auto simp: numericField_def)
  from all have "takeWhile isDigit f = f"
    by (simp add: list_all_iff)
  with f isDigit_plain [OF c] show ?thesis
    by (simp add: parseInt_def)
qed

lemma parseTimeString_two_fields:
  assumes "CHR '':'' \<notin> set h" "CHR '':'' \<notin> set m"
  shows "parseTimeString (Value (h @ CHR '':'' # m)) =
     (case (parseInt h, parseInt m) of
        (Some hours, Some minutes) \<Rightarrow>
          if hours < 0 \<or> hours > 23 \<or> minutes < 0 \<or> minutes > 59
          then Inl (RangeError InvalidTimeValue)
          else Inr (hours, minutes)
      | _ \<Rightarrow> Inl (RangeError InvalidTimeValue))"
  by (simp add: parseTimeString_def split_two [OF assms])

lemma parseInt_no_digit:
  assumes "list_all (\<lambda>c. \<not> isDigit c) f"
  shows "parseInt f = None"
proof -
  define t where "t = dropWhile isWhiteSpace f"
  have t: "\<forall>c \<in> set t. \<not> isDigit c"
    using assms set_dropWhileD [of _ isWhiteSpace f] by (auto simp: t_def list_all_iff)
  have "takeWhile isDigit u = []" if "set u \<subseteq> set t" for u
    using that t by (cases u) auto
  moreover have "set (tl t) \<subseteq> set t"
    by (cases t) auto
  ultimately have "takeWhile isDigit t = []" "takeWhile isDigit (tl t) = []"
    by simp_all
  then show ?thesis
    unfolding parseInt_def t_def [symmetric]
    by (cases t) (simp_all add: Let_def)
qed

text \<open>
  Claim C7, as the code has it. The format error is thrown exactly for a string that does
  not split at its colons into exactly two fields, which is a string that does not have
  exactly one colon. A string of two fields never gets the format error: it fails with
  the other error, for the time value, when one of its fields has no decimal digit in it,
  and when both fields are numeric and the hour is above 23 or the minute above 59. Two
  numeric fields in range are read as their decimal values. Nothing is said about a
  field that mixes digits with other characters.
\<close>

theorem parseTimeString_failure_classes:
  "(parseTimeString (Value s) = Inl (RangeError InvalidTimeFormat)
      \<longleftrightarrow> length (split CHR '':'' s) \<noteq> 2)
   \<and> (length (split CHR '':'' s) \<noteq> 2 \<longleftrightarrow> count_list s CHR '':'' \<noteq> 1)
   \<and> (s = h @ CHR '':'' # m \<and> CHR '':'' \<notin> set h \<and> CHR '':'' \<notin> set m \<longrightarrow>
        split CHR '':'' s = [h, m]
        \<and> parseTimeString (Value s) \<noteq> Inl (RangeError InvalidTimeFormat)
        \<and> (list_all (\<lambda>c. \<not> isDigit c) h \<or> list_all (\<lambda>c. \<not> isDigit c) m \<longrightarrow>
             parseTimeString (Value s) = Inl (RangeError InvalidTimeValue))
        \<and> (numericField h \<and> numericField m \<longrightarrow>
             parseTimeString (Value s) =
               (if 23 < digitsValue h \<or> 59 < digitsValue m
                then Inl (RangeError InvalidTimeValue)
                else Inr (digitsValue h, digitsValue m))))"
proof (intro conjI impI)
  show "parseTimeString (Value s) = Inl (RangeError InvalidTimeFormat)
      \<longleftrightarrow> length (split CHR '':'' s) \<noteq> 2"
    by (auto simp: parseTimeString_def Let_def split: option.splits)
  show "length (split CHR '':'' s) \<noteq> 2 \<longleftrightarrow> count_list s CHR '':'' \<noteq> 1"
    by (simp add: length_split)
next
  assume "s = h @ CHR '':'' # m \<and> CHR '':'' \<notin> set h \<and> CHR '':'' \<notin> set m"
  then have s: "s = h @ CHR '':'' # m" and colon: "CHR '':'' \<notin> set h" "CHR '':'' \<notin> set m"
    by simp_all
  show "split CHR '':'' s = [h, m]"
    unfolding s by (rule split_two [OF colon])
  have eq: "parseTimeString (Value s) =
     (case (parseInt h, parseInt m) of
        (Some hours, Some minutes) \<Rightarrow>
          if hours < 0 \<or> hours > 23 \<or> minutes < 0 \<or> minutes > 59
          then Inl (RangeError InvalidTimeValue)
          else Inr (hours, minutes)
      | _ \<Rightarrow> Inl (RangeError InvalidTimeValue))"
    unfolding s by (rule parseTimeString_two_fields [OF colon])
  show "parseTimeString (Value s) \<noteq> Inl (RangeError InvalidTimeFormat)"
    unfolding eq by (simp split: option.splits)
  {
    assume "list_all (\<lambda>c. \<not> isDigit c) h \<or> list_all (\<lambda>c. \<not> isDigit c) m"
    then have "parseInt h = None \<or> parseInt m = None"
      by (auto dest: parseInt_no_digit)
    then show "parseTimeString (Value s) = Inl (RangeError InvalidTimeValue)"
      unfolding eq by (auto split: option.splits)
  }
  assume num: "numericField h \<and> numericField m"
  then have "0 \<le> digitsValue h" "0 \<le> digitsValue m"
    by (simp_all add: numericField_def digitsValue_nonneg)
  with num show "parseTimeString (Value s) =
               (if 23 < digitsValue h \<or> 59 < digitsValue m
                then Inl (RangeError InvalidTimeValue)
                else Inr (digitsValue h, digitsValue m))"
    unfolding eq by (auto simp: parseInt_numericField)
qed

theorem parseTimeString_failure_classes_witness:
  "''24:00'' = ''24'' @ CHR '':'' # ''00''
   \<and> CHR '':'' \<notin> set ''24'' \<and> CHR '':'' \<notin> set ''00''
   \<and> numericField ''24'' \<and> numericField ''00''
   \<and> digitsValue ''24'' = 24
   \<and> parseTimeString (Value ''24:00'') = Inl (RangeError InvalidTimeValue)
   \<and> ''ab:30'' = ''ab'' @ CHR '':'' # ''30''
   \<and> CHR '':'' \<notin> set ''ab'' \<and> CHR '':'' \<notin> set ''30''
   \<and> list_all (\<lambda>c. \<not> isDigit c) ''ab''
   \<and> parseTimeString (Value ''ab:30'') = Inl (RangeError InvalidTimeValue)
   \<and> length (split CHR '':'' ''0900'') \<noteq> 2
   \<and> parseTimeString (Value ''0900'') = Inl (RangeError InvalidTimeFormat)"
proof -
  have num: "numericField ''24''" "numericField ''00''" "digitsValue ''24'' = 24"
    "list_all (\<lambda>c. \<not> isDigit c) ''ab''"
    by code_simp+
  from parseTimeString_failure_classes [of "''24:00''" "''24''" "''00''"] num
    parseTimeString_failure_classes [of "''ab:30''" "''ab''" "''30''"]
    parseTimeString_failure_classes [of "''0900''"]
  show ?thesis by simp
qed

text \<open>
  The claim as written fails on the code: a string of two fields that are not numeric
  does not get the format error but the time-value error.
\<close>

theorem non_numeric_fields_counterexample:
  "\<not> twoNumericFields ''ab:cd''
   \<and> parseTimeString (Value ''ab:cd'') \<noteq> Inl (RangeError InvalidTimeFormat)
   \<and> parseTimeString (Value ''ab:cd'') = Inl (RangeError InvalidTimeValue)"
  by code_simp

section \<open>Walking to a working time\<close>

lemma div_day: "0 \<le> r \<Longrightarrow> r < msInDay \<Longrightarrow> (x * msInDay + r) div msInDay = x"
  by simp

lemma getDay_day: "0 \<le> r \<Longrightarrow> r < msInDay \<Longrightarrow> getDay (x * msInDay + r) = (4 + x) mod 7"
  by (simp add: getDay_def)

lemma startOfDay_day_plus:
  "0 \<le> r \<Longrightarrow> r < msInDay \<Longrightarrow> startOfDay (x * msInDay + r) = x * msInDay"
  by (simp add: startOfDay_def)

lemma moveLoop_nonworking:
  assumes "attempts < maxAttempts"
    and "\<not> isWorkingDay r (workingDays n) \<or> isHoliday r (holidays n)"
  shows "moveLoop n dir attempts r =
     moveLoop n dir (Suc attempts)
       (setHours (addDays r dir)
          (if dir > 0 then startHour n else endHour n)
          (if dir > 0 then startMinute n else endMinute n))"
  using assms by (subst moveLoop.simps) simp

lemma moveLoop_working_backward:
  assumes "attempts < maxAttempts"
    and "isWorkingDay r (workingDays n)" "\<not> isHoliday r (holidays n)" "\<not> dir > 0"
  shows "moveLoop n dir attempts r =
     (if setHours r (endHour n) (endMinute n) \<le> r
      then (Suc attempts, setHours r (endHour n) (endMinute n))
      else if r < setHours r (startHour n) (startMinute n)
      then moveLoop n dir (Suc attempts)
             (setHours (addDays r (- 1)) (endHour n) (endMinute n))
      else (Suc attempts, r))"
  using assms
  by (subst moveLoop.simps)
     (auto simp: getWorkingHoursStart_def getWorkingHoursEnd_def isAfter_def isBefore_def)

lemma moveLoop_working_forward:
  assumes "attempts < maxAttempts"
    and "isWorkingDay r (workingDays n)" "\<not> isHoliday r (holidays n)" "dir > 0"
  shows "moveLoop n dir attempts r =
     (if r < setHours r (startHour n) (startMinute n)
      then (Suc attempts, setHours r (startHour n) (startMinute n))
      else if setHours r (endHour n) (endMinute n) \<le> r
      then moveLoop n dir (Suc attempts)
             (setHours (addDays r 1) (startHour n) (startMinute n))
      else (Suc attempts, r))"
  using assms
  by (subst moveLoop.simps)
     (auto simp: getWorkingHoursStart_def getWorkingHoursEnd_def isAfter_def isBefore_def)


lemma addLoop_step:
  assumes "0 < remaining" "iterations < maxIterations"
    and "isWorkingDay cur (workingDays n)" "\<not> isHoliday cur (holidays n)"
  shows "addLoop n direction remaining iterations cur =
     (let available =
            (if direction > 0
             then of_int (setHours cur (endHour n) (endMinute n) - cur) / of_int (1000 * 60)
             else of_int (cur - setHours cur (startHour n) (startMinute n)) / of_int (1000 * 60))
      in if remaining \<le> available
         then Inr (Suc iterations, addMinutes cur (remaining * of_int direction))
         else (case moveToWorkingTime n
                      (if direction > 0
                       then setHours (addDays cur 1) (startHour n) (startMinute n)
                       else setHours (addDays cur (- 1)) (endHour n) (endMinute n))
                      direction of
                 Inl e \<Rightarrow> Inl e
               | Inr cur' \<Rightarrow>
                   addLoop n direction (remaining - available) (Suc iterations) cur'))"
  using assms
  by (subst addLoop.simps)
     (simp add: getWorkingHoursStart_def getWorkingHoursEnd_def Let_def)

lemma truncateToZero_of_int [simp]: "truncateToZero (of_int k) = k"
  by (simp add: truncateToZero_def)

lemma addMinutes_whole: "addMinutes t (of_int k) = t + k * msInMinute"
proof -
  have "(of_int t + of_int k * of_int msInMinute :: rat) = of_int (t + k * msInMinute)"
    by simp
  then show ?thesis
    unfolding addMinutes_def by (simp only: truncateToZero_of_int)
qed

lemma setHours_day_plus:
  "0 \<le> r \<Longrightarrow> r < msInDay \<Longrightarrow>
     setHours (x * msInDay + r) h m = x * msInDay + h * msInHour + m * msInMinute"
  by (simp add: setHours_def startOfDay_day_plus)

lemma monday_9_minus_5:
  assumes monday: "(4 + d) mod 7 = 1"
  shows "moveToWorkingTime defaultCalendar (d * msInDay + 9 * msInHour) (- 1)
           = Inr (d * msInDay + 9 * msInHour)
       \<and> moveToWorkingTime defaultCalendar ((d - 1) * msInDay + 17 * msInHour) (- 1)
           = Inr ((d - 3) * msInDay + 17 * msInHour)
       \<and> addBusinessHours (Date (d * msInDay + 9 * msInHour)) (Num (- 5)) noOptions
           = Inr (Date ((d - 3) * msInDay + 12 * msInHour))"
proof -
  let ?n = defaultCalendar
  define mon9 sun17 sat17 fri17 fri9 fri12
    where "mon9 = d * msInDay + 9 * msInHour"
      and "sun17 = (d - 1) * msInDay + 17 * msInHour"
      and "sat17 = (d - 2) * msInDay + 17 * msInHour"
      and "fri17 = (d - 3) * msInDay + 17 * msInHour"
      and "fri9 = (d - 3) * msInDay + 9 * msInHour"
      and "fri12 = (d - 3) * msInDay + 12 * msInHour"
  note defs = mon9_def sun17_def sat17_def fri17_def fri9_def fri12_def
  have dow: "getDay mon9 = 1" "getDay sun17 = 0" "getDay sat17 = 6" "getDay fri17 = 5"
    using monday unfolding defs by (simp_all only: getDay_day) presburger+
  have work: "isWorkingDay mon9 (workingDays ?n)" "\<not> isWorkingDay sun17 (workingDays ?n)"
    "\<not> isWorkingDay sat17 (workingDays ?n)" "isWorkingDay fri17 (workingDays ?n)"
    by (simp_all add: isWorkingDay_default dow)
  have hol: "\<not> isHoliday x (holidays ?n)" for x
    by (simp add: isHoliday_def)
  have win: "setHours mon9 9 0 = mon9" "setHours mon9 17 0 = mon9 + 8 * msInHour"
    "setHours fri17 17 0 = fri17" "setHours fri17 9 0 = fri9"
    using setHours_day_plus [of "9 * msInHour" d 9 0]
      setHours_day_plus [of "9 * msInHour" d 17 0]
      setHours_day_plus [of "17 * msInHour" "d - 3" 17 0]
      setHours_day_plus [of "17 * msInHour" "d - 3" 9 0]
    by (simp_all add: defs)
  have prevday: "setHours (addDays mon9 (- 1)) 17 0 = sun17"
    "setHours (addDays sun17 (- 1)) 17 0 = sat17"
    "setHours (addDays sat17 (- 1)) 17 0 = fri17"
    using setHours_day_plus [of "9 * msInHour" "d - 1" 17 0]
      setHours_day_plus [of "17 * msInHour" "d - 2" 17 0]
      setHours_day_plus [of "17 * msInHour" "d - 3" 17 0]
    by (simp_all add: defs addDays_def)
  have "moveLoop ?n (- 1) 0 mon9 = (Suc 0, mon9)"
    using moveLoop_working_backward [of 0 mon9 ?n "- 1"] work hol
    by (simp add: win)
  have friday: "rat_of_int fri17 = rat_of_int fri9 + 28800000"
    by (simp add: defs)
  from \<open>moveLoop ?n (- 1) 0 mon9 = (Suc 0, mon9)\<close>
  have snap: "moveToWorkingTime ?n mon9 (- 1) = Inr mon9"
    by (simp add: moveToWorkingTime_def)
  have "moveLoop ?n (- 1) 0 sun17 = moveLoop ?n (- 1) (Suc 0) sat17"
    using moveLoop_nonworking [of 0 sun17 ?n "- 1"] work
    by (simp add: prevday)
  also have "\<dots> = moveLoop ?n (- 1) (Suc (Suc 0)) fri17"
    using moveLoop_nonworking [of "Suc 0" sat17 ?n "- 1"] work
    by (simp add: prevday)
  also have "\<dots> = (Suc (Suc (Suc 0)), fri17)"
    using moveLoop_working_backward [of "Suc (Suc 0)" fri17 ?n "- 1"] work hol
    by (simp add: win)
  finally have weekend: "moveToWorkingTime ?n sun17 (- 1) = Inr fri17"
    by (simp add: moveToWorkingTime_def)
  have "addLoop ?n (- 1) 300 0 mon9 = addLoop ?n (- 1) 300 (Suc 0) fri17"
    using addLoop_step [of 300 0 mon9 ?n "- 1"] work hol
    by (simp add: win prevday weekend)
  also have "\<dots> = Inr (Suc (Suc 0), addMinutes fri17 (of_int (- 300)))"
    using addLoop_step [of 300 "Suc 0" fri17 ?n "- 1"] work hol
    by (simp add: win friday)
  also have "addMinutes fri17 (of_int (- 300)) = fri12"
    unfolding addMinutes_whole by (simp add: defs)
  finally have consume: "addLoop ?n (- 1) 300 0 mon9 = Inr (Suc (Suc 0), fri12)" .
  have "addBusinessHours (Date mon9) (Num (- 5)) noOptions = Inr (Date fri12)"
    by (simp add: addBusinessHours_def isNaN_def isFinite_def normalize_noOptions
        snap consume)
  with snap weekend show ?thesis
    by (simp only: defs)
qed

text \<open>
  Claim C1. With the default calendar and no holidays, \<open>addBusinessHours\<close> of an instant
  at 09:00 of a Monday and the amount -5 returns 12:00 of the Friday three days before:
  the instant stays where it is in the first walk, the loop finds no minutes before
  Monday's window start, the walk from Sunday 17:00 crosses the weekend to the end of
  Friday's window, and the five hours are taken from there.
\<close>

theorem monday_morning_minus_five_hours:
  assumes "getDay t = 1" and "t mod msInDay = 9 * msInHour"
  shows "addBusinessHours (Date t) (Num (- 5)) noOptions
           = Inr (Date (t - 3 * msInDay + 3 * msInHour))
       \<and> getDay (t - 3 * msInDay + 3 * msInHour) = 5
       \<and> (t - 3 * msInDay + 3 * msInHour) mod msInDay = 12 * msInHour
       \<and> moveToWorkingTime defaultCalendar t (- 1) = Inr t
       \<and> moveToWorkingTime defaultCalendar (t - msInDay + 8 * msInHour) (- 1)
           = Inr (t - 3 * msInDay + 8 * msInHour)"
proof -
  define d where "d = t div msInDay"
  have t: "t = d * msInDay + 9 * msInHour"
    using div_mult_mod_eq [of t msInDay] assms(2) by (simp add: d_def)
  have monday: "(4 + d) mod 7 = 1"
    using assms(1) by (simp add: getDay_def d_def)
  have friday: "getDay ((d - 3) * msInDay + 12 * msInHour) = 5"
    using monday by (simp only: getDay_day) presburger
  have noon: "((d - 3) * msInDay + 12 * msInHour) mod msInDay = 12 * msInHour"
    by (simp only: mod_mult_self3) simp
  have eqs: "t - 3 * msInDay + 3 * msInHour = (d - 3) * msInDay + 12 * msInHour"
    "t - msInDay + 8 * msInHour = (d - 1) * msInDay + 17 * msInHour"
    "t - 3 * msInDay + 8 * msInHour = (d - 3) * msInDay + 17 * msInHour"
    by (simp_all add: t)
  from monday_9_minus_5 [OF monday] friday noon show ?thesis
    unfolding eqs unfolding t by simp
qed

theorem monday_morning_minus_five_hours_witness:
  "getDay 1673254800000 = 1 \<and> (1673254800000 :: int) mod msInDay = 9 * msInHour
   \<and> addBusinessHours (Date 1673254800000) (Num (- 5)) noOptions = Inr (Date 1673006400000)
   \<and> getDay 1673006400000 = 5 \<and> (1673006400000 :: int) mod msInDay = 12 * msInHour"
  using monday_morning_minus_five_hours [of 1673254800000]
  by (simp add: getDay_def)

section \<open>The two bounded loops\<close>

lemma moveLoop_bound: "fst (moveLoop n dir attempts r) \<le> max attempts maxAttempts"
proof (induction n dir attempts r rule: moveLoop.induct)
  case (1 n dir attempts r)
  show ?case
  proof (cases "attempts < maxAttempts")
    case False
    then show ?thesis by (subst moveLoop.simps) simp
  next
    case True
    then have m: "max (attempts + 1) maxAttempts = max attempts maxAttempts" by simp
    from True show ?thesis
      apply (subst moveLoop.simps)
      apply (simp only: if_True Let_def)
      using "1.IH" [OF True refl] unfolding m
      apply (auto split: option.splits prod.splits simp: Let_def)
      done
  qed
qed


lemma moveToWorkingTime_cases:
  "moveToWorkingTime n r dir =
     (if fst (moveLoop n dir 0 r) = maxAttempts then Inl (RangeError NoWorkingTimeInRange)
      else Inr (snd (moveLoop n dir 0 r)))"
  using moveLoop_bound [of n dir 0 r]
  by (auto simp: moveToWorkingTime_def split: prod.splits)

lemma moveToWorkingTime_error:
  "moveToWorkingTime n r dir = Inl e \<Longrightarrow> e = RangeError NoWorkingTimeInRange"
  by (simp add: moveToWorkingTime_cases split: if_splits)

lemma addLoop_no_window:
  assumes "0 < remaining" "iterations < maxIterations"
    and "getWorkingHoursStart cur n = None \<or> getWorkingHoursEnd cur n = None"
  shows "addLoop n dir remaining iterations cur =
     (case moveToWorkingTime n (addDays cur dir) dir of
        Inl e \<Rightarrow> Inl e
      | Inr cur' \<Rightarrow> addLoop n dir remaining (Suc iterations) cur')"
  using assms by (subst addLoop.simps) (auto split: option.splits)

lemma addLoop_window:
  assumes "0 < remaining" "iterations < maxIterations"
    and "getWorkingHoursStart cur n = Some workStart"
    and "getWorkingHoursEnd cur n = Some workEnd"
    and "available = (if 0 < dir then of_int (workEnd - cur) / of_int (1000 * 60)
                      else of_int (cur - workStart) / of_int (1000 * 60))"
  shows "addLoop n dir remaining iterations cur =
     (if remaining \<le> available
      then Inr (Suc iterations, addMinutes cur (remaining * of_int dir))
      else (case moveToWorkingTime n
                   (if 0 < dir
                    then setHours (addDays cur 1) (startHour n) (startMinute n)
                    else setHours (addDays cur (- 1)) (endHour n) (endMinute n))
                   dir of
              Inl e \<Rightarrow> Inl e
            | Inr cur' \<Rightarrow> addLoop n dir (remaining - available) (Suc iterations) cur'))"
  unfolding assms(5) using assms(1-4) by (subst addLoop.simps) (simp add: Let_def)

lemma addLoop_shape:
  assumes "0 < remaining" "iterations < maxIterations"
  shows "(\<exists>cur'. addLoop n dir remaining iterations cur = Inr (Suc iterations, cur'))
       \<or> addLoop n dir remaining iterations cur = Inl (RangeError NoWorkingTimeInRange)
       \<or> (\<exists>remaining' cur'. addLoop n dir remaining iterations cur
              = addLoop n dir remaining' (Suc iterations) cur')"
proof -
  have move: "(case moveToWorkingTime n x dir of
                 Inl e \<Rightarrow> Inl e
               | Inr cur' \<Rightarrow> addLoop n dir r (Suc iterations) cur')
              = Inl (RangeError NoWorkingTimeInRange)
            \<or> (\<exists>cur'. (case moveToWorkingTime n x dir of
                 Inl e \<Rightarrow> Inl e
               | Inr cur' \<Rightarrow> addLoop n dir r (Suc iterations) cur')
              = addLoop n dir r (Suc iterations) cur')" for x r
    by (cases "moveToWorkingTime n x dir") (auto dest: moveToWorkingTime_error)
  show ?thesis
  proof (cases "getWorkingHoursStart cur n = None \<or> getWorkingHoursEnd cur n = None")
    case True
    show ?thesis
      unfolding addLoop_no_window [OF assms True]
      using move [where x = "addDays cur dir" and r = remaining] by blast
  next
    case False
    then obtain workStart workEnd
      where w: "getWorkingHoursStart cur n = Some workStart"
        "getWorkingHoursEnd cur n = Some workEnd"
      by auto
    define available where
      "available = (if 0 < dir then rat_of_int (workEnd - cur) / of_int (1000 * 60)
                    else of_int (cur - workStart) / of_int (1000 * 60))"
    define x where
      "x = (if 0 < dir then setHours (addDays cur 1) (startHour n) (startMinute n)
            else setHours (addDays cur (- 1)) (endHour n) (endMinute n))"
    show ?thesis
      unfolding addLoop_window [OF assms w available_def] x_def [symmetric]
      using move [where x = x and r = "remaining - available"]
      by (cases "remaining \<le> available") (simp, simp, blast)
  qed
qed

lemma addLoop_bound_and_error:
  "iterations \<le> maxIterations \<Longrightarrow>
   (case addLoop n dir remaining iterations cur of
      Inl e \<Rightarrow> e = RangeError NoWorkingTimeInRange
    | Inr (iterations', cur') \<Rightarrow> iterations' \<le> maxIterations)"
proof (induction "maxIterations - iterations" arbitrary: iterations remaining cur)
  case 0
  then show ?case by (subst addLoop.simps) simp
next
  case (Suc k)
  show ?case
  proof (cases "0 < remaining")
    case False
    with Suc.prems show ?thesis by (subst addLoop.simps) simp
  next
    case True
    from Suc.hyps(2) have less: "iterations < maxIterations" by simp
    from Suc.hyps(2) have k: "k = maxIterations - Suc iterations" by simp
    from less have le: "Suc iterations \<le> maxIterations" by simp
    from addLoop_shape [OF True less, of n dir cur] Suc.hyps(1) [OF k le] le
    show ?thesis by auto
  qed
qed


lemma nonWorking_same_day:
  "x div msInDay = y div msInDay \<Longrightarrow> nonWorking n x = nonWorking n y"
  by (simp add: nonWorking_def isHoliday_iff isWorkingDay_iff getDay_def)

lemma setHours_div_day:
  assumes "0 \<le> h * msInHour + m * msInMinute" "h * msInHour + m * msInMinute < msInDay"
  shows "setHours x h m div msInDay = x div msInDay"
proof -
  have "setHours x h m = (x div msInDay) * msInDay + (h * msInHour + m * msInMinute)"
    by (simp add: setHours_def startOfDay_def)
  with div_day [OF assms, of "x div msInDay"] show ?thesis by simp
qed

lemma addDays_div_day: "addDays x k div msInDay = x div msInDay + k"
  by (simp add: addDays_def)

lemma moveLoop_all_nonWorking:
  assumes "0 \<le> h * msInHour + m * msInMinute" "h * msInHour + m * msInMinute < msInDay"
    and "h = (if dir > 0 then startHour n else endHour n)"
    and "m = (if dir > 0 then startMinute n else endMinute n)"
  shows "attempts \<le> maxAttempts \<Longrightarrow>
     \<forall>k < maxAttempts - attempts. nonWorking n ((r div msInDay + dir * int k) * msInDay) \<Longrightarrow>
     fst (moveLoop n dir attempts r) = maxAttempts"
proof (induction "maxAttempts - attempts" arbitrary: attempts r)
  case 0
  then show ?case by (subst moveLoop.simps) simp
next
  case (Suc j)
  from Suc.hyps(2) have less: "attempts < maxAttempts" and j: "j = maxAttempts - Suc attempts"
    by simp_all
  let ?r = "setHours (addDays r dir) h m"
  have day: "?r div msInDay = r div msInDay + dir"
    by (simp add: setHours_div_day [OF assms(1,2)] addDays_div_day)
  from less have "0 < maxAttempts - attempts" by simp
  with Suc.prems(2) have "nonWorking n ((r div msInDay + dir * int 0) * msInDay)"
    by blast
  then have "nonWorking n ((r div msInDay) * msInDay)" by simp
  moreover have "((r div msInDay) * msInDay) div msInDay = r div msInDay" by simp
  ultimately have "nonWorking n r"
    using nonWorking_same_day [of "(r div msInDay) * msInDay" r n] by blast
  then have step: "moveLoop n dir attempts r = moveLoop n dir (Suc attempts) ?r"
    using moveLoop_nonworking [OF less, of r n dir] assms(3,4) by (simp add: nonWorking_def)
  have "\<forall>k < maxAttempts - Suc attempts.
          nonWorking n ((?r div msInDay + dir * int k) * msInDay)"
  proof (intro allI impI)
    fix k assume "k < maxAttempts - Suc attempts"
    then have "Suc k < maxAttempts - attempts" by simp
    with Suc.prems(2) have "nonWorking n ((r div msInDay + dir * int (Suc k)) * msInDay)"
      by blast
    moreover have "r div msInDay + dir * int (Suc k) = ?r div msInDay + dir * int k"
      unfolding day by (simp add: algebra_simps)
    ultimately show "nonWorking n ((?r div msInDay + dir * int k) * msInDay)"
      by (simp only:)
  qed
  from Suc.hyps(1) [OF j _ this] less show ?case
    unfolding step by simp
qed


lemma window_times:
  assumes "normalizeBusinessHoursOptions options = Inr cfg"
  shows "0 \<le> startHour cfg * msInHour + startMinute cfg * msInMinute"
    "startHour cfg * msInHour + startMinute cfg * msInMinute < msInDay"
    "0 \<le> endHour cfg * msInHour + endMinute cfg * msInMinute"
    "endHour cfg * msInHour + endMinute cfg * msInMinute < msInDay"
  using normalize_Inr [OF assms] by simp_all

lemma normalize_holidays:
  "normalizeBusinessHoursOptions (noOptions\<lparr>opt_holidays := Value hs\<rparr>)
     = Inr (defaultCalendar\<lparr>holidays := hs\<rparr>)"
proof -
  have "parseTimeString (Value ''09:00'') = Inr (9, 0)"
    "parseTimeString (Value ''17:00'') = Inr (17, 0)"
    by code_simp+
  moreover have "\<not> list_ex invalidWorkingDay [Num 1, Num 2, Num 3, Num 4, Num 5]"
    by code_simp
  ultimately show ?thesis
    by (simp add: normalizeBusinessHoursOptions_def noOptions_def)
qed

lemma normalize_everyDay:
  "normalizeBusinessHoursOptions
     (noOptions\<lparr>opt_workingDays := Value [Num 0, Num 1, Num 2, Num 3, Num 4, Num 5, Num 6]\<rparr>)
     = Inr everyDayCalendar"
  by code_simp

lemma isWorkingDay_everyDay:
  "isWorkingDay t [Num 0, Num 1, Num 2, Num 3, Num 4, Num 5, Num 6]"
proof -
  have "0 \<le> getDay t" "getDay t < 7"
    by (simp_all add: getDay_def)
  then have "getDay t \<in> {0, 1, 2, 3, 4, 5, 6}"
    by auto
  then show ?thesis
    by (auto simp: isWorkingDay_iff)
qed

lemma everyDay_step:
  assumes "iterations < maxIterations" "480 < remaining"
  shows "addLoop everyDayCalendar 1 remaining iterations (d * msInDay + 9 * msInHour)
       = addLoop everyDayCalendar 1 (remaining - 480) (Suc iterations)
           ((d + 1) * msInDay + 9 * msInHour)"
proof -
  let ?n = everyDayCalendar
  define cur nxt where "cur = d * msInDay + 9 * msInHour"
    and "nxt = (d + 1) * msInDay + 9 * msInHour"
  have hol: "\<not> isHoliday x (holidays ?n)" for x
    by (simp add: isHoliday_def)
  have work: "isWorkingDay x (workingDays ?n)" for x
    using isWorkingDay_everyDay by simp
  have win: "setHours cur 17 0 = cur + 8 * msInHour" "setHours nxt 9 0 = nxt"
    "setHours nxt 17 0 = nxt + 8 * msInHour" "setHours (addDays cur 1) 9 0 = nxt"
    using setHours_day_plus [of "9 * msInHour" d 17 0]
      setHours_day_plus [of "9 * msInHour" "d + 1" 9 0]
      setHours_day_plus [of "9 * msInHour" "d + 1" 17 0]
    by (simp_all add: cur_def nxt_def addDays_def)
  have "moveLoop ?n 1 0 nxt = (Suc 0, nxt)"
    using moveLoop_working_forward [of 0 nxt ?n 1] work hol
    by (simp add: win)
  then have move: "moveToWorkingTime ?n nxt 1 = Inr nxt"
    by (simp add: moveToWorkingTime_def)
  have "addLoop ?n 1 remaining iterations cur = addLoop ?n 1 (remaining - 480) (Suc iterations) nxt"
    using addLoop_step [of remaining iterations cur ?n 1] assms work hol
    by (simp add: win move)
  then show ?thesis
    by (simp only: cur_def nxt_def)
qed

lemma everyDay_run:
  "iterations \<le> maxIterations \<Longrightarrow> 480 * of_nat (maxIterations - iterations) < remaining \<Longrightarrow>
     \<exists>cur'. addLoop everyDayCalendar 1 remaining iterations (d * msInDay + 9 * msInHour)
              = Inr (maxIterations, cur')"
proof (induction "maxIterations - iterations" arbitrary: iterations remaining d)
  case 0
  then have "iterations = maxIterations" by simp
  then show ?case by (subst addLoop.simps) simp
next
  case (Suc k)
  from Suc.hyps(2) have less: "iterations < maxIterations" and k: "k = maxIterations - Suc iterations"
    and le: "Suc iterations \<le> maxIterations"
    by simp_all
  from Suc.hyps(2) Suc.prems(2) have "480 * of_nat (Suc k) < remaining"
    by simp
  then have big: "480 < remaining" "480 * of_nat k < remaining - 480"
    by (simp_all add: algebra_simps)
  from Suc.hyps(1) [OF k le, of "remaining - 480" "d + 1"] big(2) k
  show ?case
    unfolding everyDay_step [OF less big(1)] by simp
qed

lemma everyDay_start:
  "moveToWorkingTime everyDayCalendar (d * msInDay + 9 * msInHour) 1
     = Inr (d * msInDay + 9 * msInHour)"
proof -
  let ?n = everyDayCalendar
  define cur where "cur = d * msInDay + 9 * msInHour"
  have win: "setHours cur 9 0 = cur" "setHours cur 17 0 = cur + 8 * msInHour"
    using setHours_day_plus [of "9 * msInHour" d 9 0] setHours_day_plus [of "9 * msInHour" d 17 0]
    by (simp_all add: cur_def)
  have "moveLoop ?n 1 0 cur = (Suc 0, cur)"
    using moveLoop_working_forward [of 0 cur ?n 1] isWorkingDay_everyDay
    by (simp add: win isHoliday_def)
  then show ?thesis
    by (simp add: moveToWorkingTime_def cur_def)
qed


lemma available_below_day:
  assumes "normalizeBusinessHoursOptions options = Inr cfg"
  shows "(if 0 < dir
          then rat_of_int (setHours cur (endHour cfg) (endMinute cfg) - cur) / of_int (1000 * 60)
          else of_int (cur - setHours cur (startHour cfg) (startMinute cfg)) / of_int (1000 * 60))
         < 1440"
proof -
  define sod where "sod = startOfDay cur"
  have "sod \<le> cur" "cur < sod + msInDay"
    using div_mult_mod_eq [of cur msInDay] pos_mod_sign [of msInDay cur]
      pos_mod_bound [of msInDay cur]
    unfolding sod_def startOfDay_def by linarith+
  with window_times [OF assms]
  have "setHours cur (endHour cfg) (endMinute cfg) - cur < msInDay"
    "cur - setHours cur (startHour cfg) (startMinute cfg) < msInDay"
    unfolding setHours_def sod_def [symmetric] by linarith+
  then have "rat_of_int (setHours cur (endHour cfg) (endMinute cfg) - cur) < of_int msInDay"
    "rat_of_int (cur - setHours cur (startHour cfg) (startMinute cfg)) < of_int msInDay"
    by (simp_all only: of_int_less_iff)
  then show ?thesis
    by (simp add: field_simps)
qed

lemma addLoop_large:
  assumes "normalizeBusinessHoursOptions options = Inr cfg"
  shows "iterations \<le> maxIterations \<Longrightarrow>
     1440 * of_nat (maxIterations - iterations) \<le> remaining \<Longrightarrow>
     (case addLoop cfg dir remaining iterations cur of
        Inl e \<Rightarrow> e = RangeError NoWorkingTimeInRange
      | Inr (iterations', cur') \<Rightarrow> iterations' = maxIterations)"
proof (induction "maxIterations - iterations" arbitrary: iterations remaining cur)
  case 0
  then have "iterations = maxIterations" by simp
  then show ?case by (subst addLoop.simps) simp
next
  case (Suc k)
  from Suc.hyps(2) have less: "iterations < maxIterations"
    and k: "k = maxIterations - Suc iterations" and le: "Suc iterations \<le> maxIterations"
    by simp_all
  from Suc.hyps(2) Suc.prems(2) have "1440 * of_nat (Suc k) \<le> remaining"
    by simp
  then have big: "1440 + 1440 * of_nat k \<le> remaining"
    by (simp add: algebra_simps)
  then have pos: "0 < remaining" and day: "1440 \<le> remaining"
    and rest: "1440 * of_nat k \<le> remaining"
    by simp_all
  have next_pass: "(case (case moveToWorkingTime cfg x dir of
                     Inl e \<Rightarrow> Inl e
                   | Inr cur' \<Rightarrow> addLoop cfg dir r (Suc iterations) cur') of
                Inl e \<Rightarrow> e = RangeError NoWorkingTimeInRange
              | Inr (iterations', cur') \<Rightarrow> iterations' = maxIterations)"
    if "1440 * of_nat k \<le> r" for x r
  proof (cases "moveToWorkingTime cfg x dir")
    case (Inl e)
    with moveToWorkingTime_error [OF Inl] show ?thesis by simp
  next
    case (Inr cur')
    with Suc.hyps(1) [OF k le, of r cur'] that k show ?thesis by simp
  qed
  show ?case
  proof (cases "getWorkingHoursStart cur cfg = None \<or> getWorkingHoursEnd cur cfg = None")
    case True
    show ?thesis
      unfolding addLoop_no_window [OF pos less True] by (rule next_pass [OF rest])
  next
    case False
    then obtain workStart workEnd
      where w: "getWorkingHoursStart cur cfg = Some workStart"
        "getWorkingHoursEnd cur cfg = Some workEnd"
      by auto
    then have ws: "workStart = setHours cur (startHour cfg) (startMinute cfg)"
      and we: "workEnd = setHours cur (endHour cfg) (endMinute cfg)"
      by (simp_all add: getWorkingHoursStart_def getWorkingHoursEnd_def split: if_splits)
    define available where
      "available = (if 0 < dir then rat_of_int (workEnd - cur) / of_int (1000 * 60)
                    else of_int (cur - workStart) / of_int (1000 * 60))"
    have small: "available < 1440"
      unfolding available_def ws we by (rule available_below_day [OF assms])
    with day have more: "\<not> remaining \<le> available"
      by simp
    from small big have "1440 * of_nat k \<le> remaining - available"
      by simp
    from next_pass [OF this] show ?thesis
      unfolding addLoop_window [OF pos less w available_def] using more by simp
  qed
qed

lemma isHoliday_run:
  "isHoliday x (map (\<lambda>k. Date (int k * msInDay)) [lo..<hi])
     \<longleftrightarrow> int lo \<le> x div msInDay \<and> x div msInDay < int hi"
proof
  assume "isHoliday x (map (\<lambda>k. Date (int k * msInDay)) [lo..<hi])"
  then obtain k where "lo \<le> k" "k < hi" "(int k * msInDay) div msInDay = x div msInDay"
    by (auto simp: isHoliday_iff)
  then show "int lo \<le> x div msInDay \<and> x div msInDay < int hi"
    by simp
next
  assume range: "int lo \<le> x div msInDay \<and> x div msInDay < int hi"
  define k where "k = nat (x div msInDay)"
  from range have "0 \<le> x div msInDay" by linarith
  then have "int k = x div msInDay" by (simp add: k_def)
  with range have k: "int k = x div msInDay" "lo \<le> k" "k < hi"
    by linarith+
  from k(2,3) have "k \<in> set [lo..<hi]" by simp
  then have "Date (int k * msInDay) \<in> set (map (\<lambda>k. Date (int k * msInDay)) [lo..<hi])"
    by (simp only: set_map) (rule imageI)
  moreover have "(int k * msInDay) div msInDay = x div msInDay"
    using k(1) by simp
  ultimately show "isHoliday x (map (\<lambda>k. Date (int k * msInDay)) [lo..<hi])"
    unfolding isHoliday_iff by blast
qed

text \<open>
  Claim C5. For a valid instant, a finite nonzero amount and options that normalize,
  \<open>addBusinessHours\<close> ends, and it ends in a date or in one of the two limit errors.
  Both loops count their passes and stop at a fixed maximum: the walk to a working time
  makes at most 366 attempts and throws the advance-limit error when the count has
  reached 366; the loop that consumes the minutes makes at most 10000 passes. The result
  is the advance-limit error when a walk to a working time has reached 366 attempts, the
  iteration-limit error when the walks succeed and the loop that consumes the minutes
  ends with its count at 10000, and a date otherwise. When the 366 days from the
  starting day on, in the direction of travel, are all non-working days or holidays, the
  result is the advance-limit error. An amount of 240000 hours or more, which 10000
  passes of less than a day each cannot consume, ends in one of the two limit errors.
\<close>

theorem addBusinessHours_bounded:
  assumes "normalizeBusinessHoursOptions options = Inr cfg" and "a \<noteq> 0"
  shows "fst (moveLoop cfg dir 0 r) \<le> maxAttempts
    \<and> moveToWorkingTime cfg r dir =
          (if fst (moveLoop cfg dir 0 r) = maxAttempts
           then Inl (RangeError NoWorkingTimeInRange)
           else Inr (snd (moveLoop cfg dir 0 r)))
    \<and> (case addLoop cfg dir remaining 0 cur of
          Inl e \<Rightarrow> e = RangeError NoWorkingTimeInRange
        | Inr (iterations, cur') \<Rightarrow> iterations \<le> maxIterations)
    \<and> addBusinessHours (Date t) (Num a) options =
          (case moveToWorkingTime cfg t (if 0 < a then 1 else - 1) of
             Inl e \<Rightarrow> Inl (RangeError NoWorkingTimeInRange)
           | Inr currentDate \<Rightarrow>
               (case addLoop cfg (if 0 < a then 1 else - 1) \<bar>a * 60\<bar> 0 currentDate of
                  Inl e \<Rightarrow> Inl (RangeError NoWorkingTimeInRange)
                | Inr (iterations, currentDate') \<Rightarrow>
                    if iterations = maxIterations
                    then Inl (RangeError MaxIterationsExceeded)
                    else Inr (Date currentDate')))
    \<and> (addBusinessHours (Date t) (Num a) options = Inl (RangeError NoWorkingTimeInRange)
         \<or> addBusinessHours (Date t) (Num a) options = Inl (RangeError MaxIterationsExceeded)
         \<or> (\<exists>result. addBusinessHours (Date t) (Num a) options = Inr (Date result)))
    \<and> ((\<forall>k < maxAttempts.
            nonWorking cfg (t + (if 0 < a then 1 else - 1) * int k * msInDay)) \<longrightarrow>
          addBusinessHours (Date t) (Num a) options = Inl (RangeError NoWorkingTimeInRange))
    \<and> (240000 \<le> \<bar>a\<bar> \<longrightarrow>
          addBusinessHours (Date t) (Num a) options = Inl (RangeError NoWorkingTimeInRange)
          \<or> addBusinessHours (Date t) (Num a) options = Inl (RangeError MaxIterationsExceeded))"
proof (intro conjI impI)
  show "fst (moveLoop cfg dir 0 r) \<le> maxAttempts"
    using moveLoop_bound [of cfg dir 0 r] by simp
  show "moveToWorkingTime cfg r dir =
          (if fst (moveLoop cfg dir 0 r) = maxAttempts
           then Inl (RangeError NoWorkingTimeInRange)
           else Inr (snd (moveLoop cfg dir 0 r)))"
    by (rule moveToWorkingTime_cases)
  show "case addLoop cfg dir remaining 0 cur of
          Inl e \<Rightarrow> e = RangeError NoWorkingTimeInRange
        | Inr (iterations, cur') \<Rightarrow> iterations \<le> maxIterations"
    by (rule addLoop_bound_and_error) simp
next
  define d :: int where "d = (if 0 < a then 1 else - 1)"
  have d: "(if 0 \<le> a * 60 then 1 else - 1) = d"
    using assms(2) by (simp add: d_def)
  have unfold: "addBusinessHours (Date t) (Num a) options =
      (case moveToWorkingTime cfg t d of
         Inl e \<Rightarrow> Inl e
       | Inr currentDate \<Rightarrow>
           (case addLoop cfg d \<bar>a * 60\<bar> 0 currentDate of
              Inl e \<Rightarrow> Inl e
            | Inr (iterations, currentDate') \<Rightarrow>
                if iterations \<ge> maxIterations
                then Inl (RangeError MaxIterationsExceeded)
                else Inr (Date currentDate')))"
    using assms unfolding d [symmetric]
    by (simp add: addBusinessHours_def isNaN_def isFinite_def Let_def)
  show exact: "addBusinessHours (Date t) (Num a) options =
          (case moveToWorkingTime cfg t (if 0 < a then 1 else - 1) of
             Inl e \<Rightarrow> Inl (RangeError NoWorkingTimeInRange)
           | Inr currentDate \<Rightarrow>
               (case addLoop cfg (if 0 < a then 1 else - 1) \<bar>a * 60\<bar> 0 currentDate of
                  Inl e \<Rightarrow> Inl (RangeError NoWorkingTimeInRange)
                | Inr (iterations, currentDate') \<Rightarrow>
                    if iterations = maxIterations
                    then Inl (RangeError MaxIterationsExceeded)
                    else Inr (Date currentDate')))"
    unfolding d_def [symmetric]
  proof (cases "moveToWorkingTime cfg t d")
    case (Inl e)
    with moveToWorkingTime_error [OF Inl] show "addBusinessHours (Date t) (Num a) options =
          (case moveToWorkingTime cfg t d of
             Inl e \<Rightarrow> Inl (RangeError NoWorkingTimeInRange)
           | Inr currentDate \<Rightarrow>
               (case addLoop cfg d \<bar>a * 60\<bar> 0 currentDate of
                  Inl e \<Rightarrow> Inl (RangeError NoWorkingTimeInRange)
                | Inr (iterations, currentDate') \<Rightarrow>
                    if iterations = maxIterations
                    then Inl (RangeError MaxIterationsExceeded)
                    else Inr (Date currentDate')))"
      by (simp add: unfold)
  next
    case (Inr currentDate)
    with addLoop_bound_and_error [of 0 cfg d "\<bar>a * 60\<bar>" currentDate]
    show "addBusinessHours (Date t) (Num a) options =
          (case moveToWorkingTime cfg t d of
             Inl e \<Rightarrow> Inl (RangeError NoWorkingTimeInRange)
           | Inr currentDate \<Rightarrow>
               (case addLoop cfg d \<bar>a * 60\<bar> 0 currentDate of
                  Inl e \<Rightarrow> Inl (RangeError NoWorkingTimeInRange)
                | Inr (iterations, currentDate') \<Rightarrow>
                    if iterations = maxIterations
                    then Inl (RangeError MaxIterationsExceeded)
                    else Inr (Date currentDate')))"
      by (auto simp: unfold split: sum.splits prod.splits)
  qed
  show "addBusinessHours (Date t) (Num a) options = Inl (RangeError NoWorkingTimeInRange)
         \<or> addBusinessHours (Date t) (Num a) options = Inl (RangeError MaxIterationsExceeded)
         \<or> (\<exists>result. addBusinessHours (Date t) (Num a) options = Inr (Date result))"
  proof (cases "moveToWorkingTime cfg t d")
    case (Inl e)
    with moveToWorkingTime_error [OF Inl] show ?thesis
      by (simp add: unfold)
  next
    case (Inr currentDate)
    with addLoop_bound_and_error [of 0 cfg d "\<bar>a * 60\<bar>" currentDate] show ?thesis
      by (auto simp: unfold split: sum.splits prod.splits)
  qed
  {
    assume off: "\<forall>k < maxAttempts.
              nonWorking cfg (t + (if 0 < a then 1 else - 1) * int k * msInDay)"
    have "\<forall>k < maxAttempts - 0. nonWorking cfg ((t div msInDay + d * int k) * msInDay)"
    proof (intro allI impI)
      fix k assume "k < maxAttempts - 0"
      with off have "nonWorking cfg (t + d * int k * msInDay)"
        by (simp add: d_def)
      moreover have "(t + d * int k * msInDay) div msInDay
          = ((t div msInDay + d * int k) * msInDay) div msInDay"
        by simp
      ultimately show "nonWorking cfg ((t div msInDay + d * int k) * msInDay)"
        using nonWorking_same_day by blast
    qed
    with window_times [OF assms(1)] have "fst (moveLoop cfg d 0 t) = maxAttempts"
      by (intro moveLoop_all_nonWorking [where h = "if d > 0 then startHour cfg else endHour cfg"
            and m = "if d > 0 then startMinute cfg else endMinute cfg"]) auto
    then show "addBusinessHours (Date t) (Num a) options = Inl (RangeError NoWorkingTimeInRange)"
      by (simp add: unfold moveToWorkingTime_cases)
  }
  assume "240000 \<le> \<bar>a\<bar>"
  then have "1440 * of_nat (maxIterations - 0) \<le> \<bar>a * 60\<bar>"
    by (simp add: abs_mult)
  note large = addLoop_large [OF assms(1) _ this, of d]
  show "addBusinessHours (Date t) (Num a) options = Inl (RangeError NoWorkingTimeInRange)
          \<or> addBusinessHours (Date t) (Num a) options = Inl (RangeError MaxIterationsExceeded)"
  proof (cases "moveToWorkingTime cfg t d")
    case (Inl e)
    with moveToWorkingTime_error [OF Inl] show ?thesis
      by (simp add: unfold)
  next
    case (Inr currentDate)
    with large [of currentDate] show ?thesis
      by (auto simp: unfold split: sum.splits prod.splits)
  qed
qed

theorem addBusinessHours_bounded_witness:
  "normalizeBusinessHoursOptions
     (noOptions\<lparr>opt_holidays := Value (map (\<lambda>k. Date (int k * msInDay)) [19366..<19732])\<rparr>)
     = Inr (defaultCalendar\<lparr>holidays := map (\<lambda>k. Date (int k * msInDay)) [19366..<19732]\<rparr>)
   \<and> (1 :: rat) \<noteq> 0
   \<and> addBusinessHours (Date 1673254800000) (Num 1)
        (noOptions\<lparr>opt_holidays := Value (map (\<lambda>k. Date (int k * msInDay)) [19366..<19732])\<rparr>)
     = Inl (RangeError NoWorkingTimeInRange)
   \<and> normalizeBusinessHoursOptions
       (noOptions\<lparr>opt_workingDays := Value [Num 0, Num 1, Num 2, Num 3, Num 4, Num 5, Num 6]\<rparr>)
     = Inr everyDayCalendar
   \<and> (240000 :: rat) \<noteq> 0 \<and> (240000 :: rat) \<le> \<bar>240000\<bar>
   \<and> moveToWorkingTime everyDayCalendar 1673254800000 1 = Inr 1673254800000
   \<and> (\<exists>cur'. addLoop everyDayCalendar 1 \<bar>240000 * 60\<bar> 0 1673254800000
                = Inr (maxIterations, cur'))
   \<and> addBusinessHours (Date 1673254800000) (Num 240000)
        (noOptions\<lparr>opt_workingDays := Value [Num 0, Num 1, Num 2, Num 3, Num 4, Num 5, Num 6]\<rparr>)
     = Inl (RangeError MaxIterationsExceeded)"
proof -
  let ?hs = "map (\<lambda>k. Date (int k * msInDay)) [19366..<19732]"
  have off: "\<forall>k < maxAttempts.
      nonWorking (defaultCalendar\<lparr>holidays := ?hs\<rparr>)
        (1673254800000 + (if 0 < (1 :: rat) then 1 else - 1) * int k * msInDay)"
    by (simp add: nonWorking_def isHoliday_run del: upt_rec_numeral)
  have one: "(1 :: rat) \<noteq> 0" and many: "(240000 :: rat) \<noteq> 0"
    by simp_all
  note holidays = addBusinessHours_bounded
    [OF normalize_holidays one, where t = 1673254800000 and hs1 = ?hs]
  from holidays [THEN conjunct2, THEN conjunct2, THEN conjunct2, THEN conjunct2,
      THEN conjunct2, THEN conjunct1] off
  have advance: "addBusinessHours (Date 1673254800000) (Num 1)
        (noOptions\<lparr>opt_holidays := Value ?hs\<rparr>) = Inl (RangeError NoWorkingTimeInRange)"
    by (rule mp)
  have t: "(1673254800000 :: int) = 19366 * msInDay + 9 * msInHour"
    by simp
  have start: "moveToWorkingTime everyDayCalendar 1673254800000 1 = Inr 1673254800000"
    unfolding t by (rule everyDay_start)
  have "\<exists>cur'. addLoop everyDayCalendar 1 14400000 0 (19366 * msInDay + 9 * msInHour)
                 = Inr (maxIterations, cur')"
    by (rule everyDay_run) simp_all
  then obtain cur' where run:
    "addLoop everyDayCalendar 1 \<bar>240000 * 60\<bar> 0 1673254800000 = Inr (maxIterations, cur')"
    by auto
  note everyDay = addBusinessHours_bounded
    [OF normalize_everyDay many, where t = 1673254800000]
  from everyDay [THEN conjunct2, THEN conjunct2, THEN conjunct2, THEN conjunct1]
  have "addBusinessHours (Date 1673254800000) (Num 240000)
        (noOptions\<lparr>opt_workingDays := Value [Num 0, Num 1, Num 2, Num 3, Num 4, Num 5, Num 6]\<rparr>)
     = Inl (RangeError MaxIterationsExceeded)"
    using start run by simp
  with advance start run show ?thesis
    by (simp add: normalize_holidays normalize_everyDay del: upt_rec_numeral)
qed

section \<open>The store model computes the same dates and keeps the old objects\<close>

lemma isWorkingDayAt_valid: "s ! r = Date t \<Longrightarrow> isWorkingDayAt s r wds = isWorkingDay t wds"
  by (simp add: isWorkingDayAt_def)

lemma isHolidayAt_valid: "s ! r = Date t \<Longrightarrow> isHolidayAt s r hs = isHoliday t hs"
  by (simp add: isHolidayAt_def isHoliday_def)

lemma addDaysAt_valid:
  "s ! r = Date t \<Longrightarrow> addDaysAt r k s = (length s, s @ [Date (addDays t k)])"
  by (simp add: addDaysAt_def newDate_def onTime_def)

lemma addMinutesAt_valid:
  "s ! r = Date t \<Longrightarrow> addMinutesAt r k s = (length s, s @ [Date (addMinutes t k)])"
  by (simp add: addMinutesAt_def newDate_def onTime_def)

lemma setHoursAt_last:
  "setHoursAt (length s) h m (s @ [Date x]) = s @ [Date (setHours x h m)]"
  by (simp add: setHoursAt_def onTime_def)

lemma getWorkingHoursStartAt_valid:
  "s ! r = Date t \<Longrightarrow>
   getWorkingHoursStartAt r n s =
     (case getWorkingHoursStart t n of
        None \<Rightarrow> (None, s)
      | Some workStart \<Rightarrow> (Some (length s), s @ [Date workStart]))"
  by (simp add: getWorkingHoursStartAt_def getWorkingHoursStart_def isWorkingDayAt_valid
      isHolidayAt_valid newDate_def setHoursAt_last)

lemma getWorkingHoursEndAt_valid:
  "s ! r = Date t \<Longrightarrow>
   getWorkingHoursEndAt r n s =
     (case getWorkingHoursEnd t n of
        None \<Rightarrow> (None, s)
      | Some workEnd \<Rightarrow> (Some (length s), s @ [Date workEnd]))"
  by (simp add: getWorkingHoursEndAt_def getWorkingHoursEnd_def isWorkingDayAt_valid
      isHolidayAt_valid newDate_def setHoursAt_last)

lemma moveLoopAt_nonworking:
  assumes "attempts < maxAttempts" "s ! r = Date t"
    and "\<not> isWorkingDay t (workingDays n) \<or> isHoliday t (holidays n)"
  shows "moveLoopAt n dir attempts r s =
     moveLoopAt n dir (Suc attempts) (length s)
       (s @ [Date (setHours (addDays t dir)
                     (if dir > 0 then startHour n else endHour n)
                     (if dir > 0 then startMinute n else endMinute n))])"
  using assms
  by (subst moveLoopAt.simps)
     (simp add: isWorkingDayAt_valid isHolidayAt_valid addDaysAt_valid setHoursAt_last)

lemma moveLoopAt_working_backward:
  assumes "attempts < maxAttempts" "s ! r = Date t" "r < length s"
    and "isWorkingDay t (workingDays n)" "\<not> isHoliday t (holidays n)" "\<not> dir > 0"
    and "workStart = setHours t (startHour n) (startMinute n)"
    and "workEnd = setHours t (endHour n) (endMinute n)"
  shows "moveLoopAt n dir attempts r s =
     (if workEnd \<le> t
      then ((Suc attempts, Suc (Suc (length s))), s @ [Date workStart, Date workEnd, Date workEnd])
      else if t < workStart
      then moveLoopAt n dir (Suc attempts) (Suc (Suc (length s)))
             (s @ [Date workStart, Date workEnd,
                   Date (setHours (addDays t (- 1)) (endHour n) (endMinute n))])
      else ((Suc attempts, r), s @ [Date workStart, Date workEnd]))"
proof -
  have r2: "(s @ [Date workStart]) ! r = Date t"
    using assms(2,3) by (simp add: nth_append)
  have r3: "(s @ [Date workStart, Date workEnd]) ! r = Date t"
    using assms(2,3) by (simp add: nth_append)
  have ws: "(s @ [Date workStart, Date workEnd]) ! length s = Date workStart"
    by (simp add: nth_append)
  have we: "(s @ [Date workStart, Date workEnd]) ! Suc (length s) = Date workEnd"
    by (simp add: nth_append)
  have start: "getWorkingHoursStartAt r n s = (Some (length s), s @ [Date workStart])"
    using assms by (simp add: getWorkingHoursStartAt_valid getWorkingHoursStart_def)
  have "end": "getWorkingHoursEndAt r n (s @ [Date workStart])
      = (Some (Suc (length s)), s @ [Date workStart, Date workEnd])"
    using assms r2 by (simp add: getWorkingHoursEndAt_valid getWorkingHoursEnd_def)
  have step: "addDaysAt r (- 1) (s @ [Date workStart, Date workEnd])
      = (Suc (Suc (length s)), s @ [Date workStart, Date workEnd, Date (addDays t (- 1))])"
    using addDaysAt_valid [OF r3, of "- 1"] by simp
  have set: "setHoursAt (Suc (Suc (length s))) h m (s @ [Date workStart, Date workEnd, Date x])
      = s @ [Date workStart, Date workEnd, Date (setHours x h m)]" for h m x
    using setHoursAt_last [of "s @ [Date workStart, Date workEnd]" h m x] by simp
  show ?thesis
    using assms(1,2,4,5,6)
    by (subst moveLoopAt.simps)
       (simp add: isWorkingDayAt_valid isHolidayAt_valid start "end" step set
          isAfterAt_def isBeforeAt_def sameTimeAt_def r3 ws we newDate_def
          isAfter_def isBefore_def)
qed


lemma moveLoopAt_working_forward:
  assumes "attempts < maxAttempts" "s ! r = Date t" "r < length s"
    and "isWorkingDay t (workingDays n)" "\<not> isHoliday t (holidays n)" "dir > 0"
    and "workStart = setHours t (startHour n) (startMinute n)"
    and "workEnd = setHours t (endHour n) (endMinute n)"
  shows "moveLoopAt n dir attempts r s =
     (if t < workStart
      then ((Suc attempts, Suc (Suc (length s))),
            s @ [Date workStart, Date workEnd, Date workStart])
      else if workEnd \<le> t
      then moveLoopAt n dir (Suc attempts) (Suc (Suc (length s)))
             (s @ [Date workStart, Date workEnd,
                   Date (setHours (addDays t 1) (startHour n) (startMinute n))])
      else ((Suc attempts, r), s @ [Date workStart, Date workEnd]))"
proof -
  have r2: "(s @ [Date workStart]) ! r = Date t"
    using assms(2,3) by (simp add: nth_append)
  have r3: "(s @ [Date workStart, Date workEnd]) ! r = Date t"
    using assms(2,3) by (simp add: nth_append)
  have ws: "(s @ [Date workStart, Date workEnd]) ! length s = Date workStart"
    by (simp add: nth_append)
  have we: "(s @ [Date workStart, Date workEnd]) ! Suc (length s) = Date workEnd"
    by (simp add: nth_append)
  have start: "getWorkingHoursStartAt r n s = (Some (length s), s @ [Date workStart])"
    using assms by (simp add: getWorkingHoursStartAt_valid getWorkingHoursStart_def)
  have "end": "getWorkingHoursEndAt r n (s @ [Date workStart])
      = (Some (Suc (length s)), s @ [Date workStart, Date workEnd])"
    using assms r2 by (simp add: getWorkingHoursEndAt_valid getWorkingHoursEnd_def)
  have step: "addDaysAt r 1 (s @ [Date workStart, Date workEnd])
      = (Suc (Suc (length s)), s @ [Date workStart, Date workEnd, Date (addDays t 1)])"
    using addDaysAt_valid [OF r3, of 1] by simp
  have set: "setHoursAt (Suc (Suc (length s))) h m
        (s @ [Date workStart, Date workEnd, Date x])
      = s @ [Date workStart, Date workEnd, Date (setHours x h m)]" for h m x
    using setHoursAt_last [of "s @ [Date workStart, Date workEnd]" h m x] by simp
  show ?thesis
    using assms(1,2,4,5,6)
    by (subst moveLoopAt.simps)
       (simp add: isWorkingDayAt_valid isHolidayAt_valid start "end" step set
          isAfterAt_def isBeforeAt_def sameTimeAt_def r3 ws we newDate_def
          isAfter_def isBefore_def)
qed

lemma moveLoopAt_refines:
  assumes "n0 \<le> r" "r < length s" "s ! r = Date t"
  shows "\<exists>a' r' s' t'. moveLoopAt n dir attempts r s = ((a', r'), s')
           \<and> moveLoop n dir attempts t = (a', t')
           \<and> s' ! r' = Date t' \<and> n0 \<le> r' \<and> r' < length s'
           \<and> take n0 s' = take n0 s"
  using assms
proof (induction "maxAttempts - attempts" arbitrary: attempts r s t)
  case 0
  then have "moveLoopAt n dir attempts r s = ((attempts, r), s)"
    "moveLoop n dir attempts t = (attempts, t)"
    by (subst moveLoopAt.simps moveLoop.simps, simp)+
  with "0.prems" show ?case by simp
next
  case (Suc k)
  from Suc.hyps(2) have less: "attempts < maxAttempts" and k: "k = maxAttempts - Suc attempts"
    by simp_all
  note r = Suc.prems
  from r have n0: "n0 \<le> length s" by simp
  define workStart workEnd
    where "workStart = setHours t (startHour n) (startMinute n)"
      and "workEnd = setHours t (endHour n) (endMinute n)"
  have IH: "\<exists>a' r' s' t'.
      moveLoopAt n dir (Suc attempts) (length s + length xs) (s @ xs @ [Date x]) = ((a', r'), s')
      \<and> moveLoop n dir (Suc attempts) x = (a', t')
      \<and> s' ! r' = Date t' \<and> n0 \<le> r' \<and> r' < length s' \<and> take n0 s' = take n0 s" for xs x
    using Suc.hyps(1) [OF k, of "length s + length xs" "s @ xs @ [Date x]" x] n0
    by (simp add: nth_append)
  show ?case
  proof (cases "\<not> isWorkingDay t (workingDays n) \<or> isHoliday t (holidays n)")
    case True
    show ?thesis
      unfolding moveLoopAt_nonworking [OF less r(3) True] moveLoop_nonworking [OF less True]
      using IH [of "[]"] by simp
  next
    case False
    then have w: "isWorkingDay t (workingDays n)" "\<not> isHoliday t (holidays n)" by simp_all
    have keep: "(s @ [Date workStart, Date workEnd]) ! r = Date t"
      "take n0 (s @ [Date workStart, Date workEnd]) = take n0 s"
      "take n0 (s @ [Date workStart, Date workEnd, Date x]) = take n0 s" for x
      using r n0 by (simp_all add: nth_append)
    show ?thesis
    proof (cases "dir > 0")
      case True
      show ?thesis
        unfolding moveLoopAt_working_forward [OF less r(3,2) w True workStart_def workEnd_def]
          moveLoop_working_forward [OF less w True]
          workStart_def [symmetric] workEnd_def [symmetric]
        using IH [of "[Date workStart, Date workEnd]"] keep r n0
        by (auto simp: nth_append)
    next
      case False
      show ?thesis
        unfolding moveLoopAt_working_backward [OF less r(3,2) w False workStart_def workEnd_def]
          moveLoop_working_backward [OF less w False]
          workStart_def [symmetric] workEnd_def [symmetric]
        using IH [of "[Date workStart, Date workEnd]"] keep r n0
        by (auto simp: nth_append)
    qed
  qed
qed


lemma moveToWorkingTimeAt_refines:
  assumes "n0 \<le> length s" "s ! r = Date t"
  shows "\<exists>res s'. moveToWorkingTimeAt n r dir s = (res, s')
           \<and> take n0 s' = take n0 s
           \<and> (case res of
                 Inl e \<Rightarrow> moveToWorkingTime n t dir = Inl e
               | Inr r' \<Rightarrow> \<exists>t'. moveToWorkingTime n t dir = Inr t' \<and> s' ! r' = Date t'
                            \<and> n0 \<le> r' \<and> r' < length s')"
proof -
  from moveLoopAt_refines [of n0 "length s" "s @ [Date t]" t n dir 0] assms(1)
  obtain a' r' s' t' where *: "moveLoopAt n dir 0 (length s) (s @ [Date t]) = ((a', r'), s')"
    "moveLoop n dir 0 t = (a', t')" "s' ! r' = Date t'" "n0 \<le> r'" "r' < length s'"
    "take n0 s' = take n0 s"
    by auto
  then show ?thesis
    using assms(2) by (simp add: moveToWorkingTimeAt_def moveToWorkingTime_def newDate_def)
qed

lemma addLoopAt_no_window:
  assumes "0 < remaining" "iterations < maxIterations" "s ! cur = Date t"
    and "\<not> isWorkingDay t (workingDays n) \<or> isHoliday t (holidays n)"
  shows "addLoopAt n dir remaining iterations cur s =
     (case moveToWorkingTimeAt n (length s) dir (s @ [Date (addDays t dir)]) of
        (Inl e, s') \<Rightarrow> (Inl e, s')
      | (Inr cur', s') \<Rightarrow> addLoopAt n dir remaining (Suc iterations) cur' s')"
  using assms
  by (subst addLoopAt.simps)
     (simp add: getWorkingHoursStartAt_valid getWorkingHoursEndAt_valid
        getWorkingHoursStart_def getWorkingHoursEnd_def addDaysAt_valid)

lemma addLoopAt_window:
  assumes "0 < remaining" "iterations < maxIterations" "s ! cur = Date t" "cur < length s"
    and "isWorkingDay t (workingDays n)" "\<not> isHoliday t (holidays n)"
    and "workStart = setHours t (startHour n) (startMinute n)"
    and "workEnd = setHours t (endHour n) (endMinute n)"
    and "available = (if 0 < dir then of_int (workEnd - t) / of_int (1000 * 60)
                      else of_int (t - workStart) / of_int (1000 * 60))"
  shows "addLoopAt n dir remaining iterations cur s =
     (if remaining \<le> available
      then (Inr (Suc iterations, Suc (Suc (length s))),
            s @ [Date workStart, Date workEnd, Date (addMinutes t (remaining * of_int dir))])
      else (case moveToWorkingTimeAt n (Suc (Suc (length s))) dir
                   (s @ [Date workStart, Date workEnd,
                         Date (if 0 < dir
                               then setHours (addDays t 1) (startHour n) (startMinute n)
                               else setHours (addDays t (- 1)) (endHour n) (endMinute n))]) of
              (Inl e, s') \<Rightarrow> (Inl e, s')
            | (Inr cur', s') \<Rightarrow>
                addLoopAt n dir (remaining - available) (Suc iterations) cur' s'))"
proof -
  have r2: "(s @ [Date workStart]) ! cur = Date t"
    using assms(3,4) by (simp add: nth_append)
  have r3: "(s @ [Date workStart, Date workEnd]) ! cur = Date t"
    using assms(3,4) by (simp add: nth_append)
  have ws: "(s @ [Date workStart, Date workEnd]) ! length s = Date workStart"
    by (simp add: nth_append)
  have we: "(s @ [Date workStart, Date workEnd]) ! Suc (length s) = Date workEnd"
    by (simp add: nth_append)
  have start: "getWorkingHoursStartAt cur n s = (Some (length s), s @ [Date workStart])"
    using assms by (simp add: getWorkingHoursStartAt_valid getWorkingHoursStart_def)
  have "end": "getWorkingHoursEndAt cur n (s @ [Date workStart])
      = (Some (Suc (length s)), s @ [Date workStart, Date workEnd])"
    using assms r2 by (simp add: getWorkingHoursEndAt_valid getWorkingHoursEnd_def)
  have step: "addDaysAt cur k (s @ [Date workStart, Date workEnd])
      = (Suc (Suc (length s)), s @ [Date workStart, Date workEnd, Date (addDays t k)])" for k
    using addDaysAt_valid [OF r3, of k] by simp
  have minutes: "addMinutesAt cur k (s @ [Date workStart, Date workEnd])
      = (Suc (Suc (length s)), s @ [Date workStart, Date workEnd, Date (addMinutes t k)])" for k
    using addMinutesAt_valid [OF r3, of k] by simp
  have set: "setHoursAt (Suc (Suc (length s))) h m
        (s @ [Date workStart, Date workEnd, Date x])
      = s @ [Date workStart, Date workEnd, Date (setHours x h m)]" for h m x
    using setHoursAt_last [of "s @ [Date workStart, Date workEnd]" h m x] by simp
  have between: "minutesBetween (s @ [Date workStart, Date workEnd]) (Suc (length s)) cur
      = Some (of_int (workEnd - t) / of_int (1000 * 60))"
    "minutesBetween (s @ [Date workStart, Date workEnd]) cur (length s)
      = Some (of_int (t - workStart) / of_int (1000 * 60))"
    by (simp_all only: minutesBetween_def r3 ws we prod.case date.case)
  show ?thesis
    unfolding assms(9) using assms(1,2)
    by (subst addLoopAt.simps)
       (simp add: start "end" step minutes set between Let_def
          split: prod.split sum.split)
qed


lemma addLoopAt_refines:
  assumes "n0 \<le> cur" "cur < length s" "s ! cur = Date t"
  shows "\<exists>res s'. addLoopAt n dir remaining iterations cur s = (res, s')
           \<and> take n0 s' = take n0 s
           \<and> (case res of
                 Inl e \<Rightarrow> addLoop n dir remaining iterations t = Inl e
               | Inr (iterations', cur') \<Rightarrow>
                   \<exists>t'. addLoop n dir remaining iterations t = Inr (iterations', t')
                        \<and> s' ! cur' = Date t' \<and> n0 \<le> cur' \<and> cur' < length s')"
  using assms
proof (induction "maxIterations - iterations" arbitrary: iterations remaining cur s t)
  case 0
  then have "addLoopAt n dir remaining iterations cur s = (Inr (iterations, cur), s)"
    "addLoop n dir remaining iterations t = Inr (iterations, t)"
    by (subst addLoopAt.simps addLoop.simps, simp)+
  with "0.prems" show ?case by simp
next
  case (Suc k)
  from Suc.hyps(2) have less: "iterations < maxIterations"
    and k: "k = maxIterations - Suc iterations"
    by simp_all
  note r = Suc.prems
  from r have n0: "n0 \<le> length s" by simp
  show ?case
  proof (cases "0 < remaining")
    case False
    then have "addLoopAt n dir remaining iterations cur s = (Inr (iterations, cur), s)"
      "addLoop n dir remaining iterations t = Inr (iterations, t)"
      by (subst addLoopAt.simps addLoop.simps, simp)+
    with r show ?thesis by simp
  next
    case pos: True
    have continue: "\<exists>res s'.
        (case moveToWorkingTimeAt n (length s + length xs) dir (s @ xs @ [Date x]) of
           (Inl e, s') \<Rightarrow> (Inl e, s')
         | (Inr cur', s') \<Rightarrow> addLoopAt n dir remaining' (Suc iterations) cur' s') = (res, s')
        \<and> take n0 s' = take n0 s
        \<and> (case res of
              Inl e \<Rightarrow> (case moveToWorkingTime n x dir of
                          Inl e \<Rightarrow> Inl e
                        | Inr cur' \<Rightarrow> addLoop n dir remaining' (Suc iterations) cur') = Inl e
            | Inr (iterations', cur') \<Rightarrow>
                \<exists>t'. (case moveToWorkingTime n x dir of
                        Inl e \<Rightarrow> Inl e
                      | Inr cur' \<Rightarrow> addLoop n dir remaining' (Suc iterations) cur')
                       = Inr (iterations', t')
                     \<and> s' ! cur' = Date t' \<and> n0 \<le> cur' \<and> cur' < length s')"
      for xs x remaining'
    proof -
      let ?s = "s @ xs @ [Date x]"
      have len: "n0 \<le> length ?s" and nth: "?s ! (length s + length xs) = Date x"
        and keep: "take n0 ?s = take n0 s"
        using n0 by (simp_all add: nth_append)
      from moveToWorkingTimeAt_refines [OF len nth, of n dir]
      obtain res s1 where m: "moveToWorkingTimeAt n (length s + length xs) dir ?s = (res, s1)"
        "take n0 s1 = take n0 ?s"
        "case res of
           Inl e \<Rightarrow> moveToWorkingTime n x dir = Inl e
         | Inr r' \<Rightarrow> \<exists>t'. moveToWorkingTime n x dir = Inr t' \<and> s1 ! r' = Date t'
                      \<and> n0 \<le> r' \<and> r' < length s1"
        by blast
      show ?thesis
      proof (cases res)
        case (Inl e)
        with m keep show ?thesis by simp
      next
        case (Inr r')
        with m obtain t' where t': "moveToWorkingTime n x dir = Inr t'" "s1 ! r' = Date t'"
          "n0 \<le> r'" "r' < length s1"
          by auto
        from Suc.hyps(1) [OF k t'(3,4,2), of remaining']
        obtain res2 s2 where a: "addLoopAt n dir remaining' (Suc iterations) r' s1 = (res2, s2)"
          "take n0 s2 = take n0 s1"
          and b: "case res2 of
              Inl e \<Rightarrow> addLoop n dir remaining' (Suc iterations) t' = Inl e
            | Inr (iterations', cur') \<Rightarrow>
                \<exists>t''. addLoop n dir remaining' (Suc iterations) t' = Inr (iterations', t'')
                     \<and> s2 ! cur' = Date t'' \<and> n0 \<le> cur' \<and> cur' < length s2"
          by blast
        have lhs: "(case moveToWorkingTimeAt n (length s + length xs) dir ?s of
              (Inl e, s') \<Rightarrow> (Inl e, s')
            | (Inr cur', s') \<Rightarrow> addLoopAt n dir remaining' (Suc iterations) cur' s')
            = (res2, s2)"
          using m(1) Inr a(1) by simp
        have rhs: "(case moveToWorkingTime n x dir of
              Inl e \<Rightarrow> Inl e
            | Inr cur' \<Rightarrow> addLoop n dir remaining' (Suc iterations) cur')
            = addLoop n dir remaining' (Suc iterations) t'"
          using t'(1) by simp
        show ?thesis
          unfolding lhs rhs using a(2) m(2) keep b
          by (intro exI [of _ res2] exI [of _ s2]) simp
      qed
    qed
    show ?thesis
    proof (cases "\<not> isWorkingDay t (workingDays n) \<or> isHoliday t (holidays n)")
      case True
      then have none: "getWorkingHoursStart t n = None \<or> getWorkingHoursEnd t n = None"
        by (simp add: getWorkingHoursStart_def)
      show ?thesis
        unfolding addLoopAt_no_window [OF pos less r(3) True]
          addLoop_no_window [OF pos less none]
        using continue [where xs = "[]" and x = "addDays t dir" and remaining' = remaining]
        by simp
    next
      case False
      then have w: "isWorkingDay t (workingDays n)" "\<not> isHoliday t (holidays n)"
        by simp_all
      define workStart workEnd available
        where "workStart = setHours t (startHour n) (startMinute n)"
          and "workEnd = setHours t (endHour n) (endMinute n)"
          and "available = (if 0 < dir then rat_of_int (workEnd - t) / of_int (1000 * 60)
                            else of_int (t - workStart) / of_int (1000 * 60))"
      define x where
        "x = (if 0 < dir then setHours (addDays t 1) (startHour n) (startMinute n)
              else setHours (addDays t (- 1)) (endHour n) (endMinute n))"
      have window: "getWorkingHoursStart t n = Some workStart"
        "getWorkingHoursEnd t n = Some workEnd"
        using w by (simp_all add: getWorkingHoursStart_def getWorkingHoursEnd_def
            workStart_def workEnd_def)
      have keep: "take n0 (s @ [Date workStart, Date workEnd, Date y]) = take n0 s" for y
        using n0 by simp
      show ?thesis
        unfolding addLoopAt_window
            [OF pos less r(3,2) w workStart_def workEnd_def available_def]
          addLoop_window [OF pos less window available_def]
          x_def [symmetric]
        using continue [where xs = "[Date workStart, Date workEnd]" and x = x
            and remaining' = "remaining - available"] keep n0
        by (cases "remaining \<le> available") (simp_all add: nth_append)
    qed
  qed
qed


lemma addBusinessHoursAt_refines:
  assumes "date < length s"
  shows "\<exists>res s'. addBusinessHoursAt date amount options s = (res, s')
           \<and> take (length s) s' = s
           \<and> (case res of
                 Inl e \<Rightarrow> addBusinessHours (s ! date) amount options = Inl e
               | Inr r \<Rightarrow> length s \<le> r \<and> r < length s'
                   \<and> addBusinessHours (s ! date) amount options = Inr (s' ! r))"
proof (cases "s ! date")
  case InvalidDate
  then show ?thesis
    by (simp add: addBusinessHoursAt_def addBusinessHours_def newDate_def nth_append)
next
  case (Date t)
  show ?thesis
  proof (cases "isNaN amount \<or> \<not> isFinite amount \<or> amount = Num 0")
    case True
    with Date show ?thesis
      by (auto simp: addBusinessHoursAt_def addBusinessHours_def newDate_def nth_append)
  next
    case False
    then obtain a where amount: "amount = Num a" "a \<noteq> 0"
      by (cases amount) (auto simp: isNaN_def isFinite_def)
    show ?thesis
    proof (cases "normalizeBusinessHoursOptions options")
      case (Inl e)
      with Date amount show ?thesis
        by (simp add: addBusinessHoursAt_def addBusinessHours_def newDate_def nth_append
            isNaN_def isFinite_def)
    next
      case (Inr cfg)
      define dir :: int where "dir = (if 0 \<le> a * 60 then 1 else - 1)"
      let ?s2 = "s @ [Date t, Date t]"
      have pure: "addBusinessHours (s ! date) amount options =
          (case moveToWorkingTime cfg t dir of
             Inl e \<Rightarrow> Inl e
           | Inr currentDate \<Rightarrow>
               (case addLoop cfg dir \<bar>a * 60\<bar> 0 currentDate of
                  Inl e \<Rightarrow> Inl e
                | Inr (iterations, currentDate') \<Rightarrow>
                    if iterations \<ge> maxIterations
                    then Inl (RangeError MaxIterationsExceeded)
                    else Inr (Date currentDate')))"
        using Date amount Inr unfolding dir_def
        by (simp add: addBusinessHours_def isNaN_def isFinite_def Let_def)
      have store: "addBusinessHoursAt date amount options s =
          (case moveToWorkingTimeAt cfg (Suc (length s)) dir ?s2 of
             (Inl e, s3) \<Rightarrow> (Inl e, s3)
           | (Inr currentDate', s3) \<Rightarrow>
               (case addLoopAt cfg dir \<bar>a * 60\<bar> 0 currentDate' s3 of
                  (Inl e, s4) \<Rightarrow> (Inl e, s4)
                | (Inr (iterations, currentDate''), s4) \<Rightarrow>
                    if iterations \<ge> maxIterations
                    then (Inl (RangeError MaxIterationsExceeded), s4)
                    else (let (r, s5) = newDate (s4 ! currentDate'') s4
                          in (Inr r, s5))))"
        using Date amount Inr unfolding dir_def
        by (simp add: addBusinessHoursAt_def isNaN_def isFinite_def Let_def
            newDate_def [of _ s] newDate_def [of _ "s @ [Date t]"] nth_append)
      have s2: "length s \<le> length ?s2" "?s2 ! Suc (length s) = Date t"
        "take (length s) ?s2 = s"
        by (simp_all add: nth_append)
      from moveToWorkingTimeAt_refines [OF s2(1,2), of cfg dir]
      obtain res s3 where m: "moveToWorkingTimeAt cfg (Suc (length s)) dir ?s2 = (res, s3)"
        "take (length s) s3 = take (length s) ?s2"
        "case res of
           Inl e \<Rightarrow> moveToWorkingTime cfg t dir = Inl e
         | Inr r' \<Rightarrow> \<exists>t'. moveToWorkingTime cfg t dir = Inr t' \<and> s3 ! r' = Date t'
                      \<and> length s \<le> r' \<and> r' < length s3"
        by blast
      show ?thesis
      proof (cases res)
        case (Inl e)
        with m s2(3) show ?thesis
          unfolding pure store by simp
      next
        case r': (Inr r')
        with m obtain t' where t': "moveToWorkingTime cfg t dir = Inr t'" "s3 ! r' = Date t'"
          "length s \<le> r'" "r' < length s3"
          by auto
        from addLoopAt_refines [OF t'(3,4,2), of cfg dir "\<bar>a * 60\<bar>" 0]
        obtain res2 s4 where l: "addLoopAt cfg dir \<bar>a * 60\<bar> 0 r' s3 = (res2, s4)"
          "take (length s) s4 = take (length s) s3"
          "case res2 of
             Inl e \<Rightarrow> addLoop cfg dir \<bar>a * 60\<bar> 0 t' = Inl e
           | Inr (iterations', cur') \<Rightarrow>
               \<exists>t''. addLoop cfg dir \<bar>a * 60\<bar> 0 t' = Inr (iterations', t'')
                    \<and> s4 ! cur' = Date t'' \<and> length s \<le> cur' \<and> cur' < length s4"
          by blast
        show ?thesis
        proof (cases res2)
          case (Inl e)
          with l m r' t'(1) s2(3) show ?thesis
            unfolding pure store by simp
        next
          case (Inr p)
          obtain iterations cur' where p: "p = (iterations, cur')" by (cases p)
          with Inr l obtain t'' where t'': "addLoop cfg dir \<bar>a * 60\<bar> 0 t' = Inr (iterations, t'')"
            "s4 ! cur' = Date t''" "length s \<le> cur'" "cur' < length s4"
            by auto
          with Inr p l m r' t'(1) s2(3) show ?thesis
            unfolding pure store by (simp add: nth_append newDate_def)
        qed
      qed
    qed
  qed
qed

lemma monday_walk_value:
  "addBusinessHours (Date 1673254800000) (Num (- 5)) noOptions = Inr (Date 1673006400000)"
  by code_simp

text \<open>
  Claim C9. For every valid instant and every options object, \<open>addBusinessHours\<close> with
  the amount 0 returns the same point in time. On the store of objects, every call of
  \<open>addBusinessHours\<close>, whatever the amount and the options and whether it returns or
  throws, leaves every object that existed before the call as it was, the input instant
  among them; what it returns is a new object, holding the date that the model on values
  computes. With the amount 0 the new object holds the time value of the input.
\<close>

theorem zero_amount_copies_and_input_unchanged:
  assumes "date < length s"
  shows "addBusinessHours (Date t) (Num 0) options = Inr (Date t)
    \<and> (\<exists>res s'. addBusinessHoursAt date amount options s = (res, s')
          \<and> take (length s) s' = s
          \<and> s' ! date = s ! date
          \<and> (case res of
                Inl e \<Rightarrow> addBusinessHours (s ! date) amount options = Inl e
              | Inr r \<Rightarrow> length s \<le> r \<and> r < length s'
                  \<and> addBusinessHours (s ! date) amount options = Inr (s' ! r)))
    \<and> (s ! date = Date t \<longrightarrow>
          (\<exists>r s'. addBusinessHoursAt date (Num 0) options s = (Inr r, s')
             \<and> r \<noteq> date \<and> s' ! r = Date t \<and> s' ! date = Date t))"
proof (intro conjI impI)
  show "addBusinessHours (Date t) (Num 0) options = Inr (Date t)"
    by (simp add: addBusinessHours_def isNaN_def isFinite_def)
  from addBusinessHoursAt_refines [OF assms, of amount options]
  obtain res s' where *: "addBusinessHoursAt date amount options s = (res, s')"
    "take (length s) s' = s"
    "case res of
       Inl e \<Rightarrow> addBusinessHours (s ! date) amount options = Inl e
     | Inr r \<Rightarrow> length s \<le> r \<and> r < length s'
         \<and> addBusinessHours (s ! date) amount options = Inr (s' ! r)"
    by blast
  from *(2) assms have "s' ! date = s ! date"
    by (metis nth_take)
  with * show "\<exists>res s'. addBusinessHoursAt date amount options s = (res, s')
          \<and> take (length s) s' = s
          \<and> s' ! date = s ! date
          \<and> (case res of
                Inl e \<Rightarrow> addBusinessHours (s ! date) amount options = Inl e
              | Inr r \<Rightarrow> length s \<le> r \<and> r < length s'
                  \<and> addBusinessHours (s ! date) amount options = Inr (s' ! r))"
    by blast
  assume "s ! date = Date t"
  with assms show "\<exists>r s'. addBusinessHoursAt date (Num 0) options s = (Inr r, s')
             \<and> r \<noteq> date \<and> s' ! r = Date t \<and> s' ! date = Date t"
    by (simp add: addBusinessHoursAt_def newDate_def nth_append isNaN_def isFinite_def)
qed

theorem zero_amount_copies_and_input_unchanged_witness:
  "(0 :: nat) < length [Date 1673254800000]
   \<and> addBusinessHours (Date 1673254800000) (Num 0) noOptions = Inr (Date 1673254800000)
   \<and> (\<exists>r s'. addBusinessHoursAt 0 (Num (- 5)) noOptions [Date 1673254800000] = (Inr r, s')
          \<and> s' ! 0 = Date 1673254800000 \<and> 1 \<le> r \<and> s' ! r = Date 1673006400000)
   \<and> (\<exists>r s'. addBusinessHoursAt 0 (Num 0) noOptions [Date 1673254800000] = (Inr r, s')
          \<and> r \<noteq> 0 \<and> s' ! r = Date 1673254800000 \<and> s' ! 0 = Date 1673254800000)"
proof -
  have len: "(0 :: nat) < length [Date 1673254800000]" by simp
  note inst = zero_amount_copies_and_input_unchanged
    [OF len, of 1673254800000 noOptions "Num (- 5)"]
  from inst obtain res s' where
    call: "addBusinessHoursAt 0 (Num (- 5)) noOptions [Date 1673254800000] = (res, s')"
    and same: "s' ! 0 = [Date 1673254800000] ! 0"
    and res: "case res of
        Inl e \<Rightarrow> addBusinessHours ([Date 1673254800000] ! 0) (Num (- 5)) noOptions = Inl e
      | Inr r \<Rightarrow> length [Date 1673254800000] \<le> r \<and> r < length s'
          \<and> addBusinessHours ([Date 1673254800000] ! 0) (Num (- 5)) noOptions
              = Inr (s' ! r)"
    by blast
  from res obtain r where "res = Inr r" "1 \<le> r" "s' ! r = Date 1673006400000"
    by (cases res) (simp_all add: monday_walk_value)
  with call same have walk:
    "\<exists>r s'. addBusinessHoursAt 0 (Num (- 5)) noOptions [Date 1673254800000] = (Inr r, s')
          \<and> s' ! 0 = Date 1673254800000 \<and> 1 \<le> r \<and> s' ! r = Date 1673006400000"
    by simp
  from inst walk show ?thesis by simp
qed

end
